theory Spec2Isabelle
  imports Main
begin

section \<open>Data model (core/types.ts)\<close>

text \<open>
  An event is the caller's payload (everything of \<open>BaseEvent\<close> except \<open>id\<close> and
  \<open>timestamp\<close>, kept abstract as \<open>'p\<close>) together with the two generated fields. The id
  is the template string \<^verbatim>\<open>evt-${Date.now()}-${this.idCounter++}\<close>; the model keeps its two
  varying components as a pair.
\<close>

record 'p event =
  ev_id :: "int \<times> nat"
  timestamp :: int
  body :: 'p

text \<open>
  \<open>EventStoreOptions\<close>, restricted to the fields the store reads. Every field is
  optional in the source; \<open>None\<close> is an absent field, which reads as \<open>undefined\<close> and
  is falsy. Counts are natural numbers; \<open>0\<close> is the falsy number.
\<close>

record EventStoreOptions =
  maxEvents :: "nat option"
  enableCheckpoints :: "bool option"
  checkpointInterval :: "nat option"

text \<open>\<open>Snapshot\<close>: the metadata field is optional.\<close>

record ('p, 's, 'm) Snapshot =
  snap_events :: "'p event list"
  snap_index :: int
  snap_state :: 's
  snap_timestamp :: int
  snap_metadata :: "(string \<rightharpoonup> 'm) option"

text \<open>A reducer that throws is a reducer that returns \<open>None\<close>.\<close>

datatype error = ReducerFault

text \<open>
  The private fields of class \<open>EventStore\<close>. The checkpoint \<open>Map\<close> is kept as an
  association list in insertion order, since the source iterates over it. Listeners are
  not part of the model: they only receive the event and the projected state; the
  projection computed for them is kept, because it may throw.
\<close>

record ('p, 's, 'm) EventStore =
  events :: "'p event list"
  index :: int
  checkpoints :: "(int \<times> 's) list"
  idCounter :: nat
  metadata :: "string \<rightharpoonup> 'm"
  initialState :: 's
  reducer :: "'s \<Rightarrow> 'p event \<Rightarrow> 's option"
  options :: EventStoreOptions

section \<open>JavaScript primitives used by the store\<close>

text \<open>
  Truthiness of an optional boolean. An optional number is tested where it is used: it is
  truthy when it is present and not \<open>0\<close>.
\<close>

definition truthy_b :: "bool option \<Rightarrow> bool" where
  "truthy_b b = (case b of None \<Rightarrow> False | Some v \<Rightarrow> v)"

text \<open>
  \<open>Array.prototype.slice(start, end)\<close>: a negative bound counts from the end of the
  array, both bounds are clamped to the array, and an empty range gives the empty array.
\<close>

definition slice :: "'a list \<Rightarrow> int \<Rightarrow> int \<Rightarrow> 'a list" where
  "slice xs start fin =
     (let len = int (length xs);
          k = (if start < 0 then max (len + start) 0 else min start len);
          final = (if fin < 0 then max (len + fin) 0 else min fin len)
      in take (nat (final - k)) (drop (nat k) xs))"

text \<open>\<open>slice(start)\<close>: the end defaults to the length.\<close>

definition slice_from :: "'a list \<Rightarrow> int \<Rightarrow> 'a list" where
  "slice_from xs start = slice xs start (int (length xs))"

text \<open>\<open>Array.prototype.reduce(f, init)\<close> with a callback that may throw.\<close>

fun reduce :: "('s \<Rightarrow> 'e \<Rightarrow> 's option) \<Rightarrow> 'e list \<Rightarrow> 's \<Rightarrow> 's option" where
  "reduce f [] s = Some s"
| "reduce f (e # es) s = (case f s e of None \<Rightarrow> None | Some s' \<Rightarrow> reduce f es s')"

text \<open>
  \<open>Map.prototype.set\<close>: an existing key keeps its place and takes the new value, a
  new key goes to the end.
\<close>

fun map_set :: "int \<Rightarrow> 's \<Rightarrow> (int \<times> 's) list \<Rightarrow> (int \<times> 's) list" where
  "map_set k v [] = [(k, v)]"
| "map_set k v ((k', v') # ps) =
     (if k' = k then (k, v) # ps else (k', v') # map_set k v ps)"

text \<open>\<open>Map.prototype.get\<close>.\<close>

fun map_get :: "(int \<times> 's) list \<Rightarrow> int \<Rightarrow> 's option" where
  "map_get [] k = None"
| "map_get ((k', v') # ps) k = (if k' = k then Some v' else map_get ps k)"

section \<open>The event store (core/EventStore.ts)\<close>

text \<open>
  The constructor tests \<open>options.enableCheckpoints\<close> on the options as passed and
  only then merges them over the defaults.
\<close>

definition new_EventStore ::
  "'s \<Rightarrow> ('s \<Rightarrow> 'p event \<Rightarrow> 's option) \<Rightarrow> EventStoreOptions \<Rightarrow> ('p, 's, 'm) EventStore" where
  "new_EventStore initial r opts =
     \<lparr> events = [], index = - 1,
       checkpoints = (if truthy_b (enableCheckpoints opts) then [(- 1, initial)] else []),
       idCounter = 0, metadata = Map.empty, initialState = initial, reducer = r,
       options = \<lparr> maxEvents = (case maxEvents opts of None \<Rightarrow> Some 10000 | Some v \<Rightarrow> Some v),
                   enableCheckpoints = (case enableCheckpoints opts of None \<Rightarrow> Some True | Some v \<Rightarrow> Some v),
                   checkpointInterval = (case checkpointInterval opts of None \<Rightarrow> Some 100 | Some v \<Rightarrow> Some v) \<rparr> \<rparr>"

text \<open>
  The scan of \<open>projectAtIndex\<close> for the nearest checkpoint: one step of the
  \<open>for ... of this.checkpoints.entries()\<close> loop, and the loop.
\<close>

definition nearest_step :: "int \<Rightarrow> int \<times> 's \<Rightarrow> int \<times> 's \<Rightarrow> int \<times> 's" where
  "nearest_step targetIndex entry acc =
     (if fst entry \<le> targetIndex \<and> fst entry > fst acc then entry else acc)"

definition nearest :: "int \<Rightarrow> (int \<times> 's) list \<Rightarrow> int \<times> 's \<Rightarrow> int \<times> 's" where
  "nearest targetIndex cps acc = fold (nearest_step targetIndex) cps acc"

definition projectAtIndex :: "('p, 's, 'm) EventStore \<Rightarrow> int \<Rightarrow> 's option" where
  "projectAtIndex st targetIndex =
     (if targetIndex < 0 then Some (initialState st)
      else if truthy_b (enableCheckpoints (options st)) then
        (let near = nearest targetIndex (checkpoints st) (- 1, initialState st);
             startIndex = fst near + 1
         in reduce (reducer st) (slice (events st) startIndex (targetIndex + 1)) (snd near))
      else reduce (reducer st) (slice (events st) 0 (targetIndex + 1)) (initialState st))"

definition project :: "('p, 's, 'm) EventStore \<Rightarrow> 's option" where
  "project st = projectAtIndex st (index st)"

subsection \<open>append\<close>

text \<open>Truncate the future if the cursor is not at the end of the log.\<close>

definition truncateFuture :: "('p, 's, 'm) EventStore \<Rightarrow> ('p, 's, 'm) EventStore" where
  "truncateFuture st =
     (if index st < int (length (events st)) - 1
      then st\<lparr> events := slice (events st) 0 (index st + 1),
               checkpoints := filter (\<lambda>entry. \<not> fst entry > index st) (checkpoints st) \<rparr>
      else st)"

text \<open>The cap is reached: \<open>this.options.maxEvents && this.events.length >= this.options.maxEvents\<close>.\<close>

definition capReached :: "('p, 's, 'm) EventStore \<Rightarrow> bool" where
  "capReached st =
     (case maxEvents (options st) of None \<Rightarrow> False
      | Some m \<Rightarrow> m \<noteq> 0 \<and> length (events st) \<ge> m)"

text \<open>Enforce the cap: keep the last half of the events and seed a checkpoint.\<close>

definition enforceMax :: "('p, 's, 'm) EventStore \<Rightarrow> ('p, 's, 'm) EventStore \<times> (error + unit)" where
  "enforceMax st =
     (if capReached st then
        (let midpoint = int (length (events st) div 2) in
         if truthy_b (enableCheckpoints (options st)) then
           (case projectAtIndex st midpoint of
              None \<Rightarrow> (st, Inl ReducerFault)
            | Some checkpointState \<Rightarrow>
                (let st1 = st\<lparr> checkpoints := map_set 0 checkpointState [] \<rparr>;
                     st2 = st1\<lparr> events := slice_from (events st1) midpoint \<rparr>
                 in (st2\<lparr> index := int (length (events st2)) - 1 \<rparr>, Inr ())))
         else
           (let st2 = st\<lparr> events := slice_from (events st) midpoint \<rparr>
            in (st2\<lparr> index := int (length (events st2)) - 1 \<rparr>, Inr ())))
      else (st, Inr ()))"

text \<open>
  The checkpoint is due: \<open>enableCheckpoints && checkpointInterval && index % checkpointInterval === 0\<close>.
  The remainder of JavaScript is zero exactly when the interval divides the index.
\<close>

definition checkpointDue :: "('p, 's, 'm) EventStore \<Rightarrow> bool" where
  "checkpointDue st =
     (truthy_b (enableCheckpoints (options st)) \<and>
      (case checkpointInterval (options st) of None \<Rightarrow> False
       | Some n \<Rightarrow> n \<noteq> 0 \<and> index st mod int n = 0))"

definition checkpointIfDue :: "('p, 's, 'm) EventStore \<Rightarrow> ('p, 's, 'm) EventStore \<times> (error + unit)" where
  "checkpointIfDue st =
     (if checkpointDue st then
        (case project st of
           None \<Rightarrow> (st, Inl ReducerFault)
         | Some s \<Rightarrow> (st\<lparr> checkpoints := map_set (index st) s (checkpoints st) \<rparr>, Inr ()))
      else (st, Inr ()))"

text \<open>
  \<open>append(eventPayload)\<close>. The two readings of the clock (\<open>Date.now()\<close> in the id and
  in the timestamp) are arguments. The result is the store as the call leaves it and
  either the fault that escaped or the event returned.
\<close>

definition append_event ::
  "int \<Rightarrow> int \<Rightarrow> 'p \<Rightarrow> ('p, 's, 'm) EventStore \<Rightarrow> ('p, 's, 'm) EventStore \<times> (error + 'p event)" where
  "append_event nowId nowTs eventPayload st0 =
     (let st1 = truncateFuture st0;
          ev = \<lparr> ev_id = (nowId, idCounter st1), timestamp = nowTs, body = eventPayload \<rparr>;
          st2 = st1\<lparr> idCounter := idCounter st1 + 1 \<rparr>
      in case enforceMax st2 of
           (st3, Inl e) \<Rightarrow> (st3, Inl e)
         | (st3, Inr _) \<Rightarrow>
             (let st4 = st3\<lparr> events := events st3 @ [ev] \<rparr>;
                  st5 = st4\<lparr> index := index st4 + 1 \<rparr>
              in case checkpointIfDue st5 of
                   (st6, Inl e) \<Rightarrow> (st6, Inl e)
                 | (st6, Inr _) \<Rightarrow>
                     (case project st6 of
                        None \<Rightarrow> (st6, Inl ReducerFault)
                      | Some newState \<Rightarrow> (st6, Inr ev))))"

subsection \<open>Cursor movement\<close>

definition undo :: "('p, 's, 'm) EventStore \<Rightarrow> ('p, 's, 'm) EventStore \<times> (error + bool)" where
  "undo st =
     (if index st \<ge> 0 then
        (let st1 = st\<lparr> index := index st - 1 \<rparr>
         in case project st1 of
              None \<Rightarrow> (st1, Inl ReducerFault)
            | Some newState \<Rightarrow> (st1, Inr True))
      else (st, Inr False))"

definition redo :: "('p, 's, 'm) EventStore \<Rightarrow> ('p, 's, 'm) EventStore \<times> (error + bool)" where
  "redo st =
     (if index st < int (length (events st)) - 1 then
        (let st1 = st\<lparr> index := index st + 1 \<rparr>
         in case project st1 of
              None \<Rightarrow> (st1, Inl ReducerFault)
            | Some newState \<Rightarrow> (st1, Inr True))
      else (st, Inr False))"

definition navigate :: "int \<Rightarrow> ('p, 's, 'm) EventStore \<Rightarrow> ('p, 's, 'm) EventStore \<times> (error + unit)" where
  "navigate i st =
     (let oldIndex = index st;
          st1 = st\<lparr> index := max (- 1) (min i (int (length (events st)) - 1)) \<rparr>
      in if oldIndex \<noteq> index st1 then
           (case project st1 of
              None \<Rightarrow> (st1, Inl ReducerFault)
            | Some newState \<Rightarrow> (st1, Inr ()))
         else (st1, Inr ()))"

text \<open>
  The loop of \<open>navigateToTime\<close> over the events from position \<open>i\<close> on, with the
  running \<open>targetIndex\<close>; the \<open>else\<close> branch is the \<open>break\<close>.
\<close>

fun timeScan :: "int \<Rightarrow> 'p event list \<Rightarrow> int \<Rightarrow> int \<Rightarrow> int" where
  "timeScan t [] i targetIndex = targetIndex"
| "timeScan t (e # es) i targetIndex =
     (if timestamp e \<le> t then timeScan t es (i + 1) i else targetIndex)"

definition navigateToTime :: "int \<Rightarrow> ('p, 's, 'm) EventStore \<Rightarrow> ('p, 's, 'm) EventStore \<times> (error + unit)" where
  "navigateToTime t st = navigate (timeScan t (events st) 0 (- 1)) st"

subsection \<open>Accessors\<close>

definition getIndex :: "('p, 's, 'm) EventStore \<Rightarrow> int" where
  "getIndex st = index st"

definition getEvents :: "('p, 's, 'm) EventStore \<Rightarrow> 'p event list" where
  "getEvents st = events st"

definition getActiveEvents :: "('p, 's, 'm) EventStore \<Rightarrow> 'p event list" where
  "getActiveEvents st = slice (events st) 0 (index st + 1)"



definition setMetadata :: "string \<Rightarrow> 'm \<Rightarrow> ('p, 's, 'm) EventStore \<Rightarrow> ('p, 's, 'm) EventStore" where
  "setMetadata key v st = st\<lparr> metadata := (metadata st)(key \<mapsto> v) \<rparr>"


subsection \<open>snapshot, restore, fork, clear\<close>

definition snapshot :: "int \<Rightarrow> ('p, 's, 'm) EventStore \<Rightarrow> error + ('p, 's, 'm) Snapshot" where
  "snapshot now st =
     (case project st of
        None \<Rightarrow> Inl ReducerFault
      | Some s \<Rightarrow> Inr \<lparr> snap_events = events st, snap_index = index st, snap_state = s,
                       snap_timestamp = now, snap_metadata = Some (metadata st) \<rparr>)"

text \<open>
  The loop \<open>for (let i = interval - 1; i <= this.index; i += interval)\<close> of
  \<open>restore\<close> and \<open>fork\<close>, from position \<open>i\<close> on. The source enters it with a truthy
  interval only; with interval \<open>0\<close> the model stops at once.
\<close>

function rebuildCheckpoints ::
  "nat \<Rightarrow> int \<Rightarrow> ('p, 's, 'm) EventStore \<Rightarrow> ('p, 's, 'm) EventStore \<times> (error + unit)" where
  "rebuildCheckpoints interval i st =
     (if interval = 0 \<or> \<not> i \<le> index st then (st, Inr ())
      else (case projectAtIndex st i of
              None \<Rightarrow> (st, Inl ReducerFault)
            | Some s \<Rightarrow>
                rebuildCheckpoints interval (i + int interval)
                  (st\<lparr> checkpoints := map_set i s (checkpoints st) \<rparr>)))"
  by pat_completeness auto
termination
  by (relation "measure (\<lambda>(interval, i, st). nat (index st - i + 1))") auto

declare rebuildCheckpoints.simps [simp del]

definition restore ::
  "('p, 's, 'm) Snapshot \<Rightarrow> ('p, 's, 'm) EventStore \<Rightarrow> ('p, 's, 'm) EventStore \<times> (error + unit)" where
  "restore snap st =
     (let st1 = st\<lparr> events := snap_events snap, index := snap_index snap,
                    metadata := (case snap_metadata snap of None \<Rightarrow> Map.empty | Some m \<Rightarrow> m),
                    checkpoints := [] \<rparr>
      in if truthy_b (enableCheckpoints (options st1)) then
           (let st2 = st1\<lparr> checkpoints := map_set (- 1) (initialState st1) (checkpoints st1) \<rparr>
            in case checkpointInterval (options st2) of
                 None \<Rightarrow> (st2, Inr ())
               | Some n \<Rightarrow>
                   (if n \<noteq> 0 then rebuildCheckpoints n (int n - 1) st2 else (st2, Inr ())))
         else (st1, Inr ()))"

text \<open>\<open>fork()\<close> leaves the store as it is and returns the new store, unless a projection throws.\<close>

definition fork :: "('p, 's, 'm) EventStore \<Rightarrow> error + ('p, 's, 'm) EventStore" where
  "fork st =
     (let forked0 = new_EventStore (initialState st) (reducer st) (options st);
          forked1 = forked0\<lparr> events := getActiveEvents st \<rparr>;
          forked2 = forked1\<lparr> index := int (length (events forked1)) - 1 \<rparr>;
          forked3 = forked2\<lparr> metadata := metadata st \<rparr>
      in if truthy_b (enableCheckpoints (options st)) then
           (case checkpointInterval (options st) of
              None \<Rightarrow> Inr forked3
            | Some n \<Rightarrow>
                (if n \<noteq> 0 then
                   (case rebuildCheckpoints n (int n - 1)
                           (forked3\<lparr> checkpoints := map_set (- 1) (initialState st) (checkpoints forked3) \<rparr>) of
                      (f, Inl e) \<Rightarrow> Inl e
                    | (f, Inr _) \<Rightarrow> Inr f)
                 else Inr forked3))
         else Inr forked3)"

definition clear :: "('p, 's, 'm) EventStore \<Rightarrow> ('p, 's, 'm) EventStore" where
  "clear st =
     (let st1 = st\<lparr> events := [], index := - 1, checkpoints := [], metadata := Map.empty \<rparr>
      in if truthy_b (enableCheckpoints (options st1))
         then st1\<lparr> checkpoints := map_set (- 1) (initialState st1) (checkpoints st1) \<rparr>
         else st1)"

section \<open>Specification-level notions\<close>

text \<open>The event that \<open>append\<close> constructs from a payload.\<close>

definition newEvent :: "int \<Rightarrow> int \<Rightarrow> 'p \<Rightarrow> ('p, 's, 'm) EventStore \<Rightarrow> 'p event" where
  "newEvent nowId nowTs eventPayload st =
     \<lparr> ev_id = (nowId, idCounter (truncateFuture st)), timestamp = nowTs, body = eventPayload \<rparr>"

text \<open>
  The spec's reference projection: the fold of the transition function over log
  positions \<open>0..p\<close>, starting from the initial state.
\<close>

definition fullFold :: "('p, 's, 'm) EventStore \<Rightarrow> int \<Rightarrow> 's option" where
  "fullFold st p = reduce (reducer st) (take (nat (p + 1)) (events st)) (initialState st)"

text \<open>
  The same fold over a list \<open>pre\<close> of events that are no longer in the log, followed
  by log positions \<open>0..p\<close>.
\<close>

definition prefixFold :: "('p, 's, 'm) EventStore \<Rightarrow> 'p event list \<Rightarrow> int \<Rightarrow> 's option" where
  "prefixFold st pre p = reduce (reducer st) (pre @ take (nat (p + 1)) (events st)) (initialState st)"

text \<open>Invariant 1 of the spec: the cursor lies in \<open>[-1, log.length - 1]\<close>.\<close>

definition cursorInRange :: "('p, 's, 'm) EventStore \<Rightarrow> bool" where
  "cursorInRange st = (- 1 \<le> index st \<and> index st \<le> int (length (events st)) - 1)"

text \<open>
  The checkpoints are a cache: with checkpointing enabled, every checkpoint at a position
  \<open>k \<ge> 0\<close> lies inside the log and holds the fold over \<open>pre\<close> and log positions
  \<open>0..k\<close>; and when \<open>pre\<close> is not empty, there is a checkpoint at position \<open>0\<close>
  that carries its contribution.
\<close>

definition checkpointsCache :: "('p, 's, 'm) EventStore \<Rightarrow> 'p event list \<Rightarrow> bool" where
  "checkpointsCache st pre =
     ((truthy_b (enableCheckpoints (options st)) \<longrightarrow>
        (\<forall>entry \<in> set (checkpoints st). 0 \<le> fst entry \<longrightarrow>
           fst entry < int (length (events st)) \<and> prefixFold st pre (fst entry) = Some (snd entry))) \<and>
      (pre \<noteq> [] \<longrightarrow> truthy_b (enableCheckpoints (options st)) \<and> 0 \<in> fst ` set (checkpoints st)))"

definition consistent :: "('p, 's, 'm) EventStore \<Rightarrow> 'p event list \<Rightarrow> bool" where
  "consistent st pre = (cursorInRange st \<and> checkpointsCache st pre)"

text \<open>
  The stores that the constructor and the public operations reach; a call that throws
  leaves a store too, and it is reachable. \<open>reachable True True\<close> is every such store.
  The first flag says whether appends that find the cap reached (and so run the
  eviction) are allowed. The second flag says whether \<open>restore\<close> may take a snapshot
  whose index lies outside \<open>-1..events.length-1\<close>, the range of the persisted layout;
  \<open>restore\<close> itself takes every snapshot.
\<close>

inductive reachable :: "bool \<Rightarrow> bool \<Rightarrow> ('p, 's, 'm) EventStore \<Rightarrow> bool" where
  r_new: "reachable ev oor (new_EventStore initial r opts)"
| r_append: "reachable ev oor st \<Longrightarrow> ev \<or> \<not> capReached (truncateFuture st) \<Longrightarrow>
              reachable ev oor (fst (append_event nowId nowTs eventPayload st))"
| r_undo: "reachable ev oor st \<Longrightarrow> reachable ev oor (fst (undo st))"
| r_redo: "reachable ev oor st \<Longrightarrow> reachable ev oor (fst (redo st))"
| r_navigate: "reachable ev oor st \<Longrightarrow> reachable ev oor (fst (navigate i st))"
| r_navigateToTime: "reachable ev oor st \<Longrightarrow> reachable ev oor (fst (navigateToTime t st))"
| r_setMetadata: "reachable ev oor st \<Longrightarrow> reachable ev oor (setMetadata key v st)"
| r_restore: "reachable ev oor st \<Longrightarrow>
               oor \<or> (- 1 \<le> snap_index snap \<and> snap_index snap \<le> int (length (snap_events snap)) - 1) \<Longrightarrow>
               reachable ev oor (fst (restore snap st))"
| r_fork: "reachable ev oor st \<Longrightarrow> fork st = Inr forked \<Longrightarrow> reachable ev oor forked"
| r_clear: "reachable ev oor st \<Longrightarrow> reachable ev oor (clear st)"

text \<open>
  The position of the log, after truncation, at which \<open>append\<close> cuts it when the cap is
  reached (\<open>Math.floor(this.events.length / 2)\<close>), and \<open>0\<close> when it is not.
\<close>

definition cutover :: "('p, 's, 'm) EventStore \<Rightarrow> int" where
  "cutover st =
     (if capReached (truncateFuture st) then int (length (events (truncateFuture st)) div 2) else 0)"

text \<open>A checkpoint at position \<open>-1\<close> holds the initial state.\<close>

definition hasInitialCheckpoint :: "('p, 's, 'm) EventStore \<Rightarrow> bool" where
  "hasInitialCheckpoint st = (map_get (checkpoints st) (- 1) = Some (initialState st))"


section \<open>Example stores\<close>

text \<open>Reducers over an integer state: count the events, add the payload, add a payload that must not be negative.\<close>

definition countReducer :: "int \<Rightarrow> unit event \<Rightarrow> int option" where
  "countReducer s e = Some (s + 1)"

definition addReducer :: "int \<Rightarrow> int event \<Rightarrow> int option" where
  "addReducer s e = Some (s + body e)"


text \<open>Appending payloads one after the other, each at the given clock reading.\<close>

fun appendAll :: "(int \<times> 'p) list \<Rightarrow> ('p, 's, 'm) EventStore \<Rightarrow> ('p, 's, 'm) EventStore" where
  "appendAll [] st = st"
| "appendAll ((t, p) # ps) st = appendAll ps (fst (append_event t t p st))"

definition defaultOptions :: EventStoreOptions where
  "defaultOptions = \<lparr> maxEvents = None, enableCheckpoints = None, checkpointInterval = None \<rparr>"

text \<open>The store of the eviction example: maximum log length 5, checkpointing at defaults.\<close>

definition cappedStore :: "(unit, int, unit) EventStore" where
  "cappedStore = new_EventStore 0 countReducer (defaultOptions\<lparr> maxEvents := Some 5 \<rparr>)"

definition tenEvents :: "(unit, int, unit) EventStore" where
  "tenEvents = appendAll (map (\<lambda>t. (t, ())) [1, 2, 3, 4, 5, 6, 7, 8, 9, 10]) cappedStore"

text \<open>The spec's scenario: \<open>inc(5)\<close>, \<open>inc(3)\<close>, \<open>undo()\<close>.\<close>

definition addStore :: "(int, int, unit) EventStore" where
  "addStore = new_EventStore 0 addReducer defaultOptions"



definition twoAdds :: "(int, int, unit) EventStore" where
  "twoAdds = appendAll [(1, 5), (2, 3)] addStore"

text \<open>A log whose clock went backwards: timestamps 5, 10, 3.\<close>

definition skewedStore :: "(int, int, unit) EventStore" where
  "skewedStore = appendAll [(5, 0), (10, 0), (3, 0)] addStore"



text \<open>Checkpointing switched on explicitly, maximum log length 2.\<close>

definition enabledStore :: "(unit, int, unit) EventStore" where
  "enabledStore = new_EventStore 0 countReducer
     \<lparr> maxEvents = Some 2, enableCheckpoints = Some True, checkpointInterval = None \<rparr>"

definition twoEvents :: "(unit, int, unit) EventStore" where
  "twoEvents = appendAll [(1, ()), (2, ())] enabledStore"

definition threeEvents :: "(unit, int, unit) EventStore" where
  "threeEvents = appendAll [(1, ()), (2, ()), (3, ())] enabledStore"

text \<open>The same cap with checkpointing switched off, after five appends.\<close>

definition fiveUncheckpointed :: "(unit, int, unit) EventStore" where
  "fiveUncheckpointed = appendAll (map (\<lambda>t. (t, ())) [1, 2, 3, 4, 5])
     (new_EventStore 0 countReducer
        \<lparr> maxEvents = Some 5, enableCheckpoints = Some False, checkpointInterval = None \<rparr>)"

text \<open>The capped store after five appends: the sixth finds the cap reached.\<close>

definition fiveEvents :: "(unit, int, unit) EventStore" where
  "fiveEvents = appendAll (map (\<lambda>t. (t, ())) [1, 2, 3, 4, 5]) cappedStore"

text \<open>The snapshot that \<open>snapshot()\<close> takes of the store of the eviction example at clock reading 0.\<close>

definition tenSnapshot :: "(unit, int, unit) Snapshot" where
  "tenSnapshot = \<lparr> snap_events = events tenEvents, snap_index = 3, snap_state = 10,
                    snap_timestamp = 0, snap_metadata = Some Map.empty \<rparr>"

text \<open>
  Invariant 2 of the spec, on the checkpoints themselves: every checkpoint at a position
  \<open>k \<ge> 0\<close> holds the fold of the initial state over log positions \<open>0..k\<close>.
\<close>

definition cachePure :: "('p, 's, 'm) EventStore \<Rightarrow> bool" where
  "cachePure st =
     (\<forall>entry \<in> set (checkpoints st). 0 \<le> fst entry \<longrightarrow> fullFold st (fst entry) = Some (snd entry))"

text \<open>
  A store with checkpoint interval 2, a snapshot of one event whose index 3 lies beyond
  its log, and the store left by restoring that snapshot and appending one event.
\<close>

definition intervalStore :: "(int, int, unit) EventStore" where
  "intervalStore = new_EventStore 0 addReducer (defaultOptions\<lparr> checkpointInterval := Some 2 \<rparr>)"

definition strayedSnapshot :: "(int, int, unit) Snapshot" where
  "strayedSnapshot = \<lparr> snap_events = [\<lparr> ev_id = (1, 0), timestamp = 1, body = 5 \<rparr>], snap_index = 3,
                        snap_state = 5, snap_timestamp = 0, snap_metadata = None \<rparr>"

definition strayedStore :: "(int, int, unit) EventStore" where
  "strayedStore = fst (append_event 2 2 3 (fst (restore strayedSnapshot intervalStore)))"

section \<open>restore on snapshots that lack fields\<close>

text \<open>
  A snapshot as \<open>restore()\<close> meets it at run time, where the declared type \<open>Snapshot\<close> is
  not enforced: each field may be absent (\<open>undefined\<close>), written \<open>None\<close>. An absent
  \<open>events\<close> field is not iterable, so the spread \<open>[...snapshot.events]\<close> throws a
  \<open>TypeError\<close>. Fields present are taken at their declared type.
\<close>

record ('p, 's, 'm) RawSnapshot =
  raw_events :: "'p event list option"
  raw_index :: "int option"
  raw_state :: "'s option"
  raw_timestamp :: "int option"
  raw_metadata :: "(string \<rightharpoonup> 'm) option"

text \<open>The snapshot of the declared shape, every field present.\<close>

definition rawOf :: "('p, 's, 'm) Snapshot \<Rightarrow> ('p, 's, 'm) RawSnapshot" where
  "rawOf snap = \<lparr> raw_events = Some (snap_events snap), raw_index = Some (snap_index snap),
                  raw_state = Some (snap_state snap), raw_timestamp = Some (snap_timestamp snap),
                  raw_metadata = snap_metadata snap \<rparr>"

text \<open>
  The four fields \<open>restore()\<close> writes. The cursor is \<open>None\<close> when \<open>this.index\<close> has been
  assigned \<open>undefined\<close>.
\<close>

record ('p, 's, 'm) StoreFields =
  f_events :: "'p event list"
  f_index :: "int option"
  f_metadata :: "string \<rightharpoonup> 'm"
  f_checkpoints :: "(int \<times> 's) list"

definition fieldsOf :: "('p, 's, 'm) EventStore \<Rightarrow> ('p, 's, 'm) StoreFields" where
  "fieldsOf st = \<lparr> f_events = events st, f_index = Some (index st), f_metadata = metadata st,
                   f_checkpoints = checkpoints st \<rparr>"

datatype restore_fault = TypeError | Thrown error

text \<open>
  \<open>restore(snapshot)\<close> on a run-time snapshot, statement by statement. With the index
  absent the loop test \<open>i <= this.index\<close> compares with \<open>undefined\<close> and is false, so no
  checkpoint is rebuilt beyond position \<open>-1\<close>.
\<close>

definition restoreRaw ::
  "('p, 's, 'm) RawSnapshot \<Rightarrow> ('p, 's, 'm) EventStore \<Rightarrow>
   ('p, 's, 'm) StoreFields \<times> (restore_fault + unit)" where
  "restoreRaw snap st =
     (case raw_events snap of
        None \<Rightarrow> (fieldsOf st, Inl TypeError)
      | Some evs \<Rightarrow>
          (let meta = (case raw_metadata snap of None \<Rightarrow> Map.empty | Some m \<Rightarrow> m)
           in case raw_index snap of
                None \<Rightarrow>
                  (\<lparr> f_events = evs, f_index = None, f_metadata = meta,
                      f_checkpoints = (if truthy_b (enableCheckpoints (options st))
                                       then map_set (- 1) (initialState st) [] else []) \<rparr>,
                   Inr ())
              | Some i \<Rightarrow>
                  (let st1 = st\<lparr> events := evs, index := i, metadata := meta, checkpoints := [] \<rparr>
                   in if truthy_b (enableCheckpoints (options st1)) then
                        (let st2 = st1\<lparr> checkpoints :=
                                          map_set (- 1) (initialState st1) (checkpoints st1) \<rparr>
                         in case checkpointInterval (options st2) of
                              None \<Rightarrow> (fieldsOf st2, Inr ())
                            | Some n \<Rightarrow>
                                (if n \<noteq> 0 then
                                   (case rebuildCheckpoints n (int n - 1) st2 of
                                      (st3, Inl e) \<Rightarrow> (fieldsOf st3, Inl (Thrown e))
                                    | (st3, Inr u) \<Rightarrow> (fieldsOf st3, Inr ()))
                                 else (fieldsOf st2, Inr ())))
                      else (fieldsOf st1, Inr ()))))"

text \<open>Snapshots lacking the state and the timestamp, the index, and the events.\<close>

definition statelessSnapshot :: "(int, int, unit) RawSnapshot" where
  "statelessSnapshot = \<lparr> raw_events = Some [\<lparr> ev_id = (9, 0), timestamp = 9, body = 7 \<rparr>],
                          raw_index = Some 0, raw_state = None, raw_timestamp = None,
                          raw_metadata = None \<rparr>"

definition indexlessSnapshot :: "(int, int, unit) RawSnapshot" where
  "indexlessSnapshot = \<lparr> raw_events = Some [\<lparr> ev_id = (9, 0), timestamp = 9, body = 7 \<rparr>],
                          raw_index = None, raw_state = Some 7, raw_timestamp = Some 9,
                          raw_metadata = None \<rparr>"

definition eventlessSnapshot :: "(int, int, unit) RawSnapshot" where
  "eventlessSnapshot = \<lparr> raw_events = None, raw_index = Some 0, raw_state = Some 7,
                          raw_timestamp = Some 9, raw_metadata = None \<rparr>"

section \<open>Auxiliary facts\<close>

lemma slice_0: "0 \<le> n \<Longrightarrow> slice xs 0 n = take (nat n) xs"
  by (auto simp: slice_def Let_def min_def)

lemma slice_ge: "0 \<le> a \<Longrightarrow> a \<le> b \<Longrightarrow> slice xs a b = take (nat (b - a)) (drop (nat a) xs)"
  by (auto simp: slice_def Let_def min_def max_def)

lemma slice_from_ge: "0 \<le> a \<Longrightarrow> slice_from xs a = drop (nat a) xs"
  by (auto simp: slice_from_def slice_def Let_def min_def max_def)

lemma reduce_append:
  "reduce f (xs @ ys) s = (case reduce f xs s of None \<Rightarrow> None | Some s' \<Rightarrow> reduce f ys s')"
  by (induction xs arbitrary: s) (auto split: option.splits)

lemma reduce_prefix_Some: "reduce f (xs @ ys) s = Some t \<Longrightarrow> \<exists>u. reduce f xs s = Some u"
  by (simp add: reduce_append split: option.splits)

lemma nearest_cases:
  "nearest t cps acc = acc \<or>
   (nearest t cps acc \<in> set cps \<and> fst (nearest t cps acc) \<le> t \<and> fst acc < fst (nearest t cps acc))"
proof (induction cps arbitrary: acc)
  case Nil
  show ?case by (simp add: nearest_def)
next
  case (Cons c cps)
  have step: "nearest t (c # cps) acc = nearest t cps (nearest_step t c acc)"
    by (simp add: nearest_def)
  show ?case
    using Cons.IH [of "nearest_step t c acc"] unfolding step
    by (auto simp: nearest_step_def split: if_splits)
qed

lemma nearest_ge: "fst acc \<le> fst (nearest t cps acc)"
  using nearest_cases [of t cps acc] by auto

lemma nearest_max: "e \<in> set cps \<Longrightarrow> fst e \<le> t \<Longrightarrow> fst e \<le> fst (nearest t cps acc)"
proof (induction cps arbitrary: acc)
  case Nil
  then show ?case by simp
next
  case (Cons c cps)
  have step: "nearest t (c # cps) acc = nearest t cps (nearest_step t c acc)"
    by (simp add: nearest_def)
  show ?case
  proof (cases "e = c")
    case True
    have "fst e \<le> fst (nearest_step t c acc)"
      using True Cons.prems by (auto simp: nearest_step_def)
    also have "\<dots> \<le> fst (nearest t cps (nearest_step t c acc))"
      by (rule nearest_ge)
    finally show ?thesis unfolding step .
  next
    case False
    then have "e \<in> set cps" using Cons.prems by simp
    then show ?thesis unfolding step using Cons.IH Cons.prems by blast
  qed
qed

lemma take_split: "a \<le> b \<Longrightarrow> take b xs = take a xs @ take (b - a) (drop a xs)"
  by (metis le_add_diff_inverse take_add)

lemma projectAtIndex_consistent:
  assumes c: "checkpointsCache st pre" and p0: "0 \<le> p" and pl: "p < int (length (events st))"
  shows "projectAtIndex st p = prefixFold st pre p"
proof (cases "truthy_b (enableCheckpoints (options st))")
  case False
  then have "pre = []" using c by (auto simp: checkpointsCache_def)
  then show ?thesis using False p0
    by (simp add: projectAtIndex_def prefixFold_def slice_0)
next
  case True
  define near where "near = nearest p (checkpoints st) (- 1, initialState st)"
  have proj: "projectAtIndex st p = reduce (reducer st) (slice (events st) (fst near + 1) (p + 1)) (snd near)"
    using True p0 by (simp add: projectAtIndex_def near_def Let_def)
  from nearest_cases [of p "checkpoints st" "(- 1, initialState st)"]
  consider (start) "near = (- 1, initialState st)"
    | (entry) "near \<in> set (checkpoints st)" "fst near \<le> p" "- 1 < fst near"
    unfolding near_def by auto
  then show ?thesis
  proof cases
    case start
    have "pre = []"
    proof (rule ccontr)
      assume "pre \<noteq> []"
      then obtain e where "e \<in> set (checkpoints st)" "fst e = 0"
        using c by (auto simp: checkpointsCache_def)
      then have "0 \<le> fst near" unfolding near_def using nearest_max [of e "checkpoints st" p] p0 by simp
      then show False using start by simp
    qed
    then show ?thesis using proj start p0 by (simp add: prefixFold_def slice_0)
  next
    case entry
    then have k0: "0 \<le> fst near" by simp
    have cached: "prefixFold st pre (fst near) = Some (snd near)"
      using c True entry(1) k0 by (auto simp: checkpointsCache_def)
    have sl: "slice (events st) (fst near + 1) (p + 1) = take (nat (p - fst near)) (drop (nat (fst near + 1)) (events st))"
      using k0 entry(2) by (simp add: slice_ge)
    have "take (nat (p + 1)) (events st) =
          take (nat (fst near + 1)) (events st) @ take (nat (p + 1) - nat (fst near + 1)) (drop (nat (fst near + 1)) (events st))"
      using k0 entry(2) by (intro take_split) simp
    moreover have "nat (p + 1) - nat (fst near + 1) = nat (p - fst near)"
      using k0 entry(2) by simp
    ultimately have "prefixFold st pre p =
        reduce (reducer st) ((pre @ take (nat (fst near + 1)) (events st)) @ take (nat (p - fst near)) (drop (nat (fst near + 1)) (events st))) (initialState st)"
      by (simp add: prefixFold_def)
    also have "\<dots> = reduce (reducer st) (take (nat (p - fst near)) (drop (nat (fst near + 1)) (events st))) (snd near)"
      using cached by (simp only: reduce_append prefixFold_def option.case)
    finally show ?thesis using proj sl by simp
  qed
qed

lemma set_map_set: "set (map_set k v ps) \<subseteq> insert (k, v) (set ps)"
  by (induction ps) (auto split: if_splits)

lemma keys_map_set: "fst ` set (map_set k v ps) = insert k (fst ` set ps)"
  by (induction k v ps rule: map_set.induct) (simp_all add: insert_commute)

lemma consistent_new: "consistent (new_EventStore initial r opts) []"
  by (simp add: consistent_def cursorInRange_def checkpointsCache_def new_EventStore_def)

lemma truncateFuture_range:
  "cursorInRange st \<Longrightarrow> cursorInRange (truncateFuture st) \<and>
     index (truncateFuture st) = int (length (events (truncateFuture st))) - 1 \<and>
     index (truncateFuture st) = index st \<and>
     events (truncateFuture st) = take (nat (index st + 1)) (events st)"
  by (auto simp: cursorInRange_def truncateFuture_def slice_0)

lemma truncateFuture_fields:
  "options (truncateFuture st) = options st \<and> reducer (truncateFuture st) = reducer st \<and>
   initialState (truncateFuture st) = initialState st \<and> metadata (truncateFuture st) = metadata st \<and>
   idCounter (truncateFuture st) = idCounter st"
  by (simp add: truncateFuture_def)

lemma truncateFuture_cache:
  assumes r: "cursorInRange st" and c: "checkpointsCache st pre" and i0: "0 \<le> index st"
  shows "checkpointsCache (truncateFuture st) pre"
proof (cases "index st < int (length (events st)) - 1")
  case False
  then show ?thesis using c by (simp add: truncateFuture_def)
next
  case True
  have ev: "events (truncateFuture st) = take (nat (index st + 1)) (events st)"
    using truncateFuture_range [OF r] by simp
  have cps: "checkpoints (truncateFuture st) = filter (\<lambda>entry. \<not> fst entry > index st) (checkpoints st)"
    using True by (simp add: truncateFuture_def)
  have pf: "prefixFold (truncateFuture st) pre k = prefixFold st pre k" if "k \<le> index st" for k
    using that ev by (simp add: prefixFold_def truncateFuture_fields min_def)
  have len: "int (length (events (truncateFuture st))) = index st + 1"
    using ev True i0 by simp
  show ?thesis
    unfolding checkpointsCache_def
  proof (intro conjI impI ballI)
    fix entry
    assume en: "truthy_b (enableCheckpoints (options (truncateFuture st)))"
      and mem: "entry \<in> set (checkpoints (truncateFuture st))" and k0: "0 \<le> fst entry"
    from mem cps have m: "entry \<in> set (checkpoints st)" and le: "fst entry \<le> index st" by auto
    show "fst entry < int (length (events (truncateFuture st)))" using le len by simp
    show "prefixFold (truncateFuture st) pre (fst entry) = Some (snd entry)"
      using pf [OF le] c en m k0 by (auto simp: checkpointsCache_def truncateFuture_fields)
  next
    assume "pre \<noteq> []"
    then show "truthy_b (enableCheckpoints (options (truncateFuture st)))"
      using c by (simp add: checkpointsCache_def truncateFuture_fields)
  next
    assume "pre \<noteq> []"
    then obtain e where "e \<in> set (checkpoints st)" "fst e = 0"
      using c by (auto simp: checkpointsCache_def)
    then have "e \<in> set (checkpoints (truncateFuture st))" using cps i0 by simp
    then show "0 \<in> fst ` set (checkpoints (truncateFuture st))" using \<open>fst e = 0\<close> by force
  qed
qed

lemma truncateFuture_cache_start:
  assumes r: "cursorInRange st" and c: "checkpointsCache st pre" and i0: "index st < 0"
  shows "checkpointsCache (truncateFuture st) []"
proof -
  have none: False
    if mem: "entry \<in> set (checkpoints (truncateFuture st))" and k: "0 \<le> fst entry"
      and en: "truthy_b (enableCheckpoints (options st))" for entry
  proof (cases "index st < int (length (events st)) - 1")
    case True
    then show False using mem k i0 by (auto simp: truncateFuture_def)
  next
    case False
    then have "int (length (events st)) \<le> 0" using i0 by linarith
    moreover have "entry \<in> set (checkpoints st)"
      using False mem by (simp add: truncateFuture_def)
    ultimately show False using c en k by (auto simp: checkpointsCache_def)
  qed
  show ?thesis
    unfolding checkpointsCache_def using none by (auto simp: truncateFuture_fields)
qed

lemma enforceMax_nocap: "\<not> capReached st \<Longrightarrow> enforceMax st = (st, Inr ())"
  by (simp add: enforceMax_def)

lemma enforceMax_fault: "enforceMax st = (st', Inl e) \<Longrightarrow> st' = st \<and> e = ReducerFault"
  by (auto simp: enforceMax_def Let_def split: if_splits option.splits)

lemma enforceMax_fields:
  "options (fst (enforceMax st)) = options st \<and> reducer (fst (enforceMax st)) = reducer st \<and>
   initialState (fst (enforceMax st)) = initialState st \<and> metadata (fst (enforceMax st)) = metadata st \<and>
   idCounter (fst (enforceMax st)) = idCounter st"
  by (simp add: enforceMax_def Let_def split: option.splits)

lemma capReached_nonempty: "capReached st \<Longrightarrow> 0 < length (events st)"
  by (auto simp: capReached_def split: option.splits)

lemma enforceMax_enabled:
  assumes cap: "capReached st" and en: "truthy_b (enableCheckpoints (options st))"
    and c: "checkpointsCache st pre" and ok: "enforceMax st = (st', Inr u)"
  shows "events st' = drop (length (events st) div 2) (events st)"
    and "index st' = int (length (events st')) - 1"
    and "cursorInRange st'"
    and "checkpointsCache st' (pre @ take (length (events st) div 2) (events st))"
    and "\<exists>cs. checkpoints st' = [(0, cs)] \<and> projectAtIndex st (int (length (events st) div 2)) = Some cs"
proof -
  let ?mid = "length (events st) div 2"
  have pos: "0 < length (events st)" by (rule capReached_nonempty [OF cap])
  then have midlt: "?mid < length (events st)" by simp
  obtain cs where cs: "projectAtIndex st (int ?mid) = Some cs"
    and st': "st' = st\<lparr> checkpoints := [(0, cs)], events := drop ?mid (events st),
                          index := int (length (events st) - ?mid) - 1 \<rparr>"
    using ok cap en by (auto simp: enforceMax_def Let_def slice_from_ge split: option.splits)
  have "projectAtIndex st (int ?mid) = prefixFold st pre (int ?mid)"
    using midlt by (intro projectAtIndex_consistent [OF c]) simp_all
  then have pf: "prefixFold st pre (int ?mid) = Some cs" using cs by simp
  show "events st' = drop ?mid (events st)" by (simp add: st')
  show "index st' = int (length (events st')) - 1" by (simp add: st')
  show "cursorInRange st'" using midlt by (simp add: st' cursorInRange_def)
  show "\<exists>cs. checkpoints st' = [(0, cs)] \<and> projectAtIndex st (int ?mid) = Some cs"
    using cs by (simp add: st')
  have "take (Suc ?mid) (events st) = take ?mid (events st) @ take 1 (drop ?mid (events st))"
    using take_add [of ?mid 1 "events st"] by simp
  then have "prefixFold st' (pre @ take ?mid (events st)) 0 = prefixFold st pre (int ?mid)"
    by (simp add: prefixFold_def st' nat_add_distrib)
  then show "checkpointsCache st' (pre @ take ?mid (events st))"
    using pf en midlt by (simp add: checkpointsCache_def st')
qed

lemma enforceMax_disabled:
  assumes en: "\<not> truthy_b (enableCheckpoints (options st))"
    and r: "cursorInRange st" and last: "index st = int (length (events st)) - 1"
  shows "enforceMax st = (fst (enforceMax st), Inr ())"
    and "cursorInRange (fst (enforceMax st))"
    and "checkpointsCache (fst (enforceMax st)) []"
    and "index (fst (enforceMax st)) = int (length (events (fst (enforceMax st)))) - 1"
  using en r last
  by (auto simp: enforceMax_def Let_def cursorInRange_def checkpointsCache_def slice_from_ge)

lemma push_consistent:
  assumes c: "consistent st pre" and last: "index st = int (length (events st)) - 1"
  shows "consistent (st\<lparr> events := events st @ [ev], index := index st + 1 \<rparr>) pre"
proof -
  have "prefixFold (st\<lparr> events := events st @ [ev], index := index st + 1 \<rparr>) pre k = prefixFold st pre k"
    if "k < int (length (events st))" for k
    using that by (simp add: prefixFold_def)
  then show ?thesis
    using c last by (auto simp: consistent_def cursorInRange_def checkpointsCache_def)
qed

lemma checkpointIfDue_fields:
  "events (fst (checkpointIfDue st)) = events st \<and> index (fst (checkpointIfDue st)) = index st \<and>
   options (fst (checkpointIfDue st)) = options st \<and> reducer (fst (checkpointIfDue st)) = reducer st \<and>
   initialState (fst (checkpointIfDue st)) = initialState st \<and>
   metadata (fst (checkpointIfDue st)) = metadata st \<and> idCounter (fst (checkpointIfDue st)) = idCounter st"
  by (simp add: checkpointIfDue_def split: option.splits)

lemma cache_map_set:
  assumes c: "checkpointsCache st pre"
    and new: "0 \<le> k \<Longrightarrow> k < int (length (events st)) \<and> prefixFold st pre k = Some s"
  shows "checkpointsCache (st\<lparr> checkpoints := map_set k s (checkpoints st) \<rparr>) pre"
proof -
  have pf: "prefixFold (st\<lparr> checkpoints := map_set k s (checkpoints st) \<rparr>) pre j = prefixFold st pre j" for j
    by (simp add: prefixFold_def)
  show ?thesis
    unfolding checkpointsCache_def pf
    using c new set_map_set [of k s "checkpoints st"] keys_map_set [of k s "checkpoints st"]
    by (auto simp: checkpointsCache_def)
qed

lemma checkpointIfDue_consistent:
  assumes c: "consistent st pre"
  shows "consistent (fst (checkpointIfDue st)) pre"
proof (cases "checkpointDue st")
  case False
  then show ?thesis using c by (simp add: checkpointIfDue_def)
next
  case True
  show ?thesis
  proof (cases "project st")
    case None
    then show ?thesis using c True by (simp add: checkpointIfDue_def)
  next
    case (Some s)
    have cc: "checkpointsCache st pre" and r: "cursorInRange st"
      using c by (simp_all add: consistent_def)
    have "0 \<le> index st \<Longrightarrow> index st < int (length (events st)) \<and> prefixFold st pre (index st) = Some s"
      using projectAtIndex_consistent [OF cc, of "index st"] Some r
      by (simp add: project_def cursorInRange_def)
    then have "checkpointsCache (st\<lparr> checkpoints := map_set (index st) s (checkpoints st) \<rparr>) pre"
      by (rule cache_map_set [OF cc])
    then show ?thesis
      using True Some r by (simp add: checkpointIfDue_def consistent_def cursorInRange_def)
  qed
qed

lemma append_event_store:
  "fst (append_event a b p st) =
     (let st2 = (truncateFuture st)\<lparr> idCounter := idCounter (truncateFuture st) + 1 \<rparr>;
          st3 = fst (enforceMax st2)
      in case snd (enforceMax st2) of
           Inl e \<Rightarrow> st3
         | Inr u \<Rightarrow> fst (checkpointIfDue (st3\<lparr> events := events st3 @ [newEvent a b p st],
                                                 index := index st3 + 1 \<rparr>)))"
  by (auto simp: append_event_def newEvent_def Let_def split: prod.splits sum.splits option.splits)

lemma consistent_idCounter: "consistent (st\<lparr> idCounter := n \<rparr>) pre = consistent st pre"
  by (simp add: consistent_def cursorInRange_def checkpointsCache_def prefixFold_def)

lemma capReached_idCounter: "capReached (st\<lparr> idCounter := n \<rparr>) = capReached st"
  by (auto simp: capReached_def split: option.splits)

lemma truncateFuture_consistent:
  assumes c: "consistent st pre"
  shows "\<exists>pre1. consistent (truncateFuture st) pre1 \<and> (pre = [] \<longrightarrow> pre1 = []) \<and>
           (0 \<le> index st \<longrightarrow> pre1 = pre)"
proof (cases "0 \<le> index st")
  case True
  then show ?thesis
    using c truncateFuture_range [of st] truncateFuture_cache [of st pre]
    by (auto simp: consistent_def)
next
  case False
  then have "consistent (truncateFuture st) []"
    using c truncateFuture_range [of st] truncateFuture_cache_start [of st pre]
    by (auto simp: consistent_def)
  then show ?thesis using False by auto
qed

lemma enforceMax_consistent:
  assumes c: "consistent st pre" and last: "index st = int (length (events st)) - 1"
  shows "\<exists>pre3. consistent (fst (enforceMax st)) pre3 \<and>
           (snd (enforceMax st) = Inr () \<longrightarrow>
              index (fst (enforceMax st)) = int (length (events (fst (enforceMax st)))) - 1) \<and>
           (\<not> capReached st \<longrightarrow> pre3 = pre) \<and>
           (\<not> truthy_b (enableCheckpoints (options st)) \<longrightarrow> pre3 = [])"
proof (cases "capReached st")
  case False
  have "\<not> truthy_b (enableCheckpoints (options st)) \<Longrightarrow> pre = []"
    using c by (auto simp: consistent_def checkpointsCache_def)
  then show ?thesis using False c last by (auto simp: enforceMax_nocap)
next
  case cap: True
  show ?thesis
  proof (cases "truthy_b (enableCheckpoints (options st))")
    case False
    then show ?thesis
      using enforceMax_disabled [OF False, of ] c last cap
      by (auto simp: consistent_def)
  next
    case en: True
    obtain st' res where e: "enforceMax st = (st', res)" by (cases "enforceMax st")
    show ?thesis
    proof (cases res)
      case (Inl err)
      then have "st' = st" using e enforceMax_fault by blast
      then show ?thesis using e Inl c cap en by auto
    next
      case (Inr u)
      have cc: "checkpointsCache st pre" using c by (simp add: consistent_def)
      from enforceMax_enabled [OF cap en cc e [unfolded Inr]]
      show ?thesis using e cap en by (auto simp: consistent_def)
    qed
  qed
qed

lemma append_consistent:
  assumes c: "consistent st pre"
  shows "\<exists>pre'. consistent (fst (append_event a b p st)) pre' \<and>
           (pre = [] \<and> \<not> capReached (truncateFuture st) \<longrightarrow> pre' = [])"
proof -
  define st2 where "st2 = (truncateFuture st)\<lparr> idCounter := idCounter (truncateFuture st) + 1 \<rparr>"
  define st3 where "st3 = fst (enforceMax st2)"
  define ev where "ev = newEvent a b p st"
  have r: "cursorInRange st" using c by (simp add: consistent_def)
  obtain pre1 where c1: "consistent (truncateFuture st) pre1" and e1: "pre = [] \<longrightarrow> pre1 = []"
    using truncateFuture_consistent [OF c] by blast
  have c2: "consistent st2 pre1" unfolding st2_def using c1 by (simp add: consistent_idCounter)
  have last2: "index st2 = int (length (events st2)) - 1"
    unfolding st2_def using truncateFuture_range [OF r] by simp
  have cap2: "capReached st2 = capReached (truncateFuture st)"
    unfolding st2_def by (simp add: capReached_idCounter)
  obtain pre3 where c3: "consistent st3 pre3"
    and last3: "snd (enforceMax st2) = Inr () \<longrightarrow> index st3 = int (length (events st3)) - 1"
    and e3: "\<not> capReached st2 \<longrightarrow> pre3 = pre1"
    unfolding st3_def using enforceMax_consistent [OF c2 last2] by blast
  have fs: "fst (append_event a b p st) =
      (case snd (enforceMax st2) of Inl e \<Rightarrow> st3
       | Inr u \<Rightarrow> fst (checkpointIfDue (st3\<lparr> events := events st3 @ [ev], index := index st3 + 1 \<rparr>)))"
    unfolding append_event_store st2_def st3_def ev_def Let_def ..
  have "consistent (fst (append_event a b p st)) pre3"
  proof (cases "snd (enforceMax st2)")
    case (Inl e)
    then show ?thesis using fs c3 by simp
  next
    case (Inr u)
    then have "index st3 = int (length (events st3)) - 1" using last3 by simp
    then have "consistent (st3\<lparr> events := events st3 @ [ev], index := index st3 + 1 \<rparr>) pre3"
      by (rule push_consistent [OF c3])
    then show ?thesis using fs Inr by (simp add: checkpointIfDue_consistent)
  qed
  then show ?thesis using e1 e3 cap2 by auto
qed

lemma undo_consistent: "consistent st pre \<Longrightarrow> consistent (fst (undo st)) pre"
  by (auto simp: undo_def Let_def consistent_def cursorInRange_def checkpointsCache_def prefixFold_def
           split: option.splits)

lemma redo_consistent: "consistent st pre \<Longrightarrow> consistent (fst (redo st)) pre"
  by (auto simp: redo_def Let_def consistent_def cursorInRange_def checkpointsCache_def prefixFold_def
           split: option.splits)

lemma navigate_consistent: "consistent st pre \<Longrightarrow> consistent (fst (navigate i st)) pre"
  by (auto simp: navigate_def Let_def consistent_def cursorInRange_def checkpointsCache_def prefixFold_def
           split: option.splits)

lemma navigateToTime_consistent: "consistent st pre \<Longrightarrow> consistent (fst (navigateToTime t st)) pre"
  by (simp add: navigateToTime_def navigate_consistent)

lemma setMetadata_consistent: "consistent st pre \<Longrightarrow> consistent (setMetadata k v st) pre"
  by (simp add: setMetadata_def consistent_def cursorInRange_def checkpointsCache_def prefixFold_def)

lemma clear_consistent: "consistent (clear st) []"
  by (simp add: clear_def Let_def consistent_def cursorInRange_def checkpointsCache_def)

lemma rebuildCheckpoints_fields:
  "events (fst (rebuildCheckpoints n i st)) = events st \<and> index (fst (rebuildCheckpoints n i st)) = index st \<and>
   options (fst (rebuildCheckpoints n i st)) = options st \<and> reducer (fst (rebuildCheckpoints n i st)) = reducer st \<and>
   initialState (fst (rebuildCheckpoints n i st)) = initialState st \<and>
   metadata (fst (rebuildCheckpoints n i st)) = metadata st \<and>
   idCounter (fst (rebuildCheckpoints n i st)) = idCounter st"
proof (induction n i st rule: rebuildCheckpoints.induct)
  case (1 interval i st)
  show ?case
  proof (cases "interval = 0 \<or> \<not> i \<le> index st")
    case True
    then have "rebuildCheckpoints interval i st = (st, Inr ())"
      by (subst rebuildCheckpoints.simps) simp
    then show ?thesis by simp
  next
    case False
    show ?thesis
    proof (cases "projectAtIndex st i")
      case None
      then have "rebuildCheckpoints interval i st = (st, Inl ReducerFault)"
        using False by (subst rebuildCheckpoints.simps) simp
      then show ?thesis by simp
    next
      case (Some s)
      have "rebuildCheckpoints interval i st =
            rebuildCheckpoints interval (i + int interval) (st\<lparr> checkpoints := map_set i s (checkpoints st) \<rparr>)"
        using False Some by (subst rebuildCheckpoints.simps) simp
      then show ?thesis using "1.IH" [OF False Some] by simp
    qed
  qed
qed

lemma rebuildCheckpoints_consistent:
  "consistent st pre \<Longrightarrow> 0 \<le> i \<Longrightarrow> consistent (fst (rebuildCheckpoints n i st)) pre"
proof (induction n i st rule: rebuildCheckpoints.induct)
  case (1 interval i st)
  show ?case
  proof (cases "interval = 0 \<or> \<not> i \<le> index st")
    case True
    then show ?thesis using "1.prems" by (subst rebuildCheckpoints.simps) simp
  next
    case False
    show ?thesis
    proof (cases "projectAtIndex st i")
      case None
      then show ?thesis using False "1.prems" by (subst rebuildCheckpoints.simps) simp
    next
      case (Some s)
      have cc: "checkpointsCache st pre" and r: "cursorInRange st"
        using "1.prems" by (simp_all add: consistent_def)
      have lt: "i < int (length (events st))" using False r by (simp add: cursorInRange_def)
      have "prefixFold st pre i = Some s"
        using projectAtIndex_consistent [OF cc "1.prems"(2) lt] Some by simp
      then have "checkpointsCache (st\<lparr> checkpoints := map_set i s (checkpoints st) \<rparr>) pre"
        using lt by (intro cache_map_set [OF cc]) simp
      then have c': "consistent (st\<lparr> checkpoints := map_set i s (checkpoints st) \<rparr>) pre"
        using r by (simp add: consistent_def cursorInRange_def)
      have "rebuildCheckpoints interval i st =
            rebuildCheckpoints interval (i + int interval) (st\<lparr> checkpoints := map_set i s (checkpoints st) \<rparr>)"
        using False Some by (subst rebuildCheckpoints.simps) simp
      then show ?thesis using "1.IH" [OF False Some c'] "1.prems"(2) by simp
    qed
  qed
qed

lemma restore_fields:
  "events (fst (restore snap st)) = snap_events snap \<and> index (fst (restore snap st)) = snap_index snap \<and>
   metadata (fst (restore snap st)) = (case snap_metadata snap of None \<Rightarrow> Map.empty | Some m \<Rightarrow> m) \<and>
   options (fst (restore snap st)) = options st \<and> reducer (fst (restore snap st)) = reducer st \<and>
   initialState (fst (restore snap st)) = initialState st \<and> idCounter (fst (restore snap st)) = idCounter st"
  by (simp add: restore_def Let_def rebuildCheckpoints_fields split: option.splits)

lemma restore_consistent:
  assumes lo: "- 1 \<le> snap_index snap" and hi: "snap_index snap \<le> int (length (snap_events snap)) - 1"
  shows "consistent (fst (restore snap st)) []"
proof -
  define st1 where "st1 = st\<lparr> events := snap_events snap, index := snap_index snap,
      metadata := (case snap_metadata snap of None \<Rightarrow> Map.empty | Some m \<Rightarrow> m), checkpoints := [] \<rparr>"
  define st2 where "st2 = st1\<lparr> checkpoints := map_set (- 1) (initialState st1) (checkpoints st1) \<rparr>"
  have c1: "consistent st1 []"
    using lo hi by (simp add: st1_def consistent_def cursorInRange_def checkpointsCache_def)
  have c2: "consistent st2 []"
    using lo hi by (simp add: st2_def st1_def consistent_def cursorInRange_def checkpointsCache_def)
  have "fst (restore snap st) = st1 \<or> fst (restore snap st) = st2 \<or>
        (\<exists>n. n \<noteq> 0 \<and> fst (restore snap st) = fst (rebuildCheckpoints n (int n - 1) st2))"
    unfolding restore_def st1_def [symmetric] Let_def st2_def [symmetric]
    by (auto split: option.splits)
  then show ?thesis
    using c1 c2 rebuildCheckpoints_consistent [OF c2] by fastforce
qed

lemma fork_consistent:
  assumes f: "fork st = Inr forked"
  shows "consistent forked []"
proof -
  define f3 where "f3 = (new_EventStore (initialState st) (reducer st) (options st) :: ('a, 'b, 'c) EventStore)
      \<lparr> events := getActiveEvents st, index := int (length (getActiveEvents st)) - 1, metadata := metadata st \<rparr>"
  define f4 where "f4 = f3\<lparr> checkpoints := map_set (- 1) (initialState st) (checkpoints f3) \<rparr>"
  have c3: "consistent f3 []"
    by (simp add: f3_def consistent_def cursorInRange_def checkpointsCache_def new_EventStore_def)
  have c4: "consistent f4 []"
    using set_map_set [of "- 1" "initialState st" "checkpoints f3"]
    by (auto simp: f4_def f3_def consistent_def cursorInRange_def checkpointsCache_def new_EventStore_def)
  have "forked = f3 \<or> (\<exists>n. n \<noteq> 0 \<and> forked = fst (rebuildCheckpoints n (int n - 1) f4))"
    using f unfolding fork_def Let_def f4_def f3_def
    by (auto split: option.splits if_splits prod.splits sum.splits)
  then show ?thesis
    using c3 rebuildCheckpoints_consistent [OF c4] by fastforce
qed

lemma reachable_consistent:
  "reachable ev oor st \<Longrightarrow> \<not> oor \<Longrightarrow> \<exists>pre. consistent st pre \<and> (\<not> ev \<longrightarrow> pre = [])"
proof (induction rule: reachable.induct)
  case (r_new ev oor initial r opts)
  have "consistent (new_EventStore initial r opts) []" by (rule consistent_new)
  then show ?case by (intro exI [of _ "[]"]) simp
next
  case (r_append ev oor st nowId nowTs eventPayload)
  from r_append.IH [OF r_append.prems]
  obtain pre where c: "consistent st pre" and e: "\<not> ev \<longrightarrow> pre = []" by (elim exE conjE)
  from append_consistent [OF c, of nowId nowTs eventPayload]
  obtain pre' where "consistent (fst (append_event nowId nowTs eventPayload st)) pre'"
      "pre = [] \<and> \<not> capReached (truncateFuture st) \<longrightarrow> pre' = []" by (elim exE conjE)
  then show ?case using e r_append.hyps(2) by (intro exI [of _ pre']) auto
next
  case (r_undo ev oor st)
  from r_undo.IH [OF r_undo.prems]
  obtain pre where c: "consistent st pre" and e: "\<not> ev \<longrightarrow> pre = []" by (elim exE conjE)
  show ?case using undo_consistent [OF c] e by (intro exI [of _ pre]) simp
next
  case (r_redo ev oor st)
  from r_redo.IH [OF r_redo.prems]
  obtain pre where c: "consistent st pre" and e: "\<not> ev \<longrightarrow> pre = []" by (elim exE conjE)
  show ?case using redo_consistent [OF c] e by (intro exI [of _ pre]) simp
next
  case (r_navigate ev oor st i)
  from r_navigate.IH [OF r_navigate.prems]
  obtain pre where c: "consistent st pre" and e: "\<not> ev \<longrightarrow> pre = []" by (elim exE conjE)
  show ?case using navigate_consistent [OF c] e by (intro exI [of _ pre]) simp
next
  case (r_navigateToTime ev oor st t)
  from r_navigateToTime.IH [OF r_navigateToTime.prems]
  obtain pre where c: "consistent st pre" and e: "\<not> ev \<longrightarrow> pre = []" by (elim exE conjE)
  show ?case using navigateToTime_consistent [OF c] e by (intro exI [of _ pre]) simp
next
  case (r_setMetadata ev oor st key v)
  from r_setMetadata.IH [OF r_setMetadata.prems]
  obtain pre where c: "consistent st pre" and e: "\<not> ev \<longrightarrow> pre = []" by (elim exE conjE)
  show ?case using setMetadata_consistent [OF c] e by (intro exI [of _ pre]) simp
next
  case (r_restore ev oor st snap)
  then have "- 1 \<le> snap_index snap" and "snap_index snap \<le> int (length (snap_events snap)) - 1"
    by simp_all
  then have "consistent (fst (restore snap st)) []" by (rule restore_consistent)
  then show ?case by (intro exI [of _ "[]"]) simp
next
  case (r_fork ev oor st forked)
  show ?case using fork_consistent [OF r_fork.hyps(2)] by (intro exI [of _ "[]"]) simp
next
  case (r_clear ev oor st)
  show ?case using clear_consistent [of st] by (intro exI [of _ "[]"]) simp
qed



lemma append_fields:
  "options (fst (append_event a b p st)) = options st \<and> reducer (fst (append_event a b p st)) = reducer st \<and>
   initialState (fst (append_event a b p st)) = initialState st \<and>
   metadata (fst (append_event a b p st)) = metadata st"
  unfolding append_event_store Let_def
  by (simp add: enforceMax_fields checkpointIfDue_fields truncateFuture_fields split: sum.splits)

text \<open>The definitions that evaluating an operation on a concrete store unfolds.\<close>

lemmas eval_defs = new_EventStore_def defaultOptions_def append_event_def truncateFuture_def
  enforceMax_def capReached_def checkpointIfDue_def checkpointDue_def project_def projectAtIndex_def
  nearest_def nearest_step_def slice_def slice_from_def truthy_b_def Let_def
  undo_def redo_def navigate_def navigateToTime_def

lemma twoAdds_value:
  "twoAdds = \<lparr> events = [\<lparr> ev_id = (1, 0), timestamp = 1, body = 5 \<rparr>,
                            \<lparr> ev_id = (2, 1), timestamp = 2, body = 3 \<rparr>],
               index = 1, checkpoints = [(0, 5)], idCounter = 2, metadata = Map.empty,
               initialState = 0, reducer = addReducer,
               options = \<lparr> maxEvents = Some 10000, enableCheckpoints = Some True,
                           checkpointInterval = Some 100 \<rparr> \<rparr>"
  by (simp add: twoAdds_def addStore_def addReducer_def eval_defs)

lemma timeScan_takeWhile:
  "timeScan t es i target =
     (if takeWhile (\<lambda>e. timestamp e \<le> t) es = [] then target
      else i + int (length (takeWhile (\<lambda>e. timestamp e \<le> t) es)) - 1)"
  by (induction es arbitrary: i target) auto

lemma navigate_in_range:
  "- 1 \<le> i \<Longrightarrow> i \<le> int (length (events st)) - 1 \<Longrightarrow> index (fst (navigate i st)) = i"
  by (simp add: navigate_def Let_def split: option.splits)

lemma takeWhile_sorted_iff:
  assumes s: "sorted (map timestamp es)" and i: "i < length es"
  shows "timestamp (es ! i) \<le> t \<longleftrightarrow> i < length (takeWhile (\<lambda>e. timestamp e \<le> t) es)"
proof
  let ?k = "length (takeWhile (\<lambda>e. timestamp e \<le> t) es)"
  assume le: "timestamp (es ! i) \<le> t"
  show "i < ?k"
  proof (rule ccontr)
    assume "\<not> i < ?k"
    then have ki: "?k \<le> i" by simp
    then have "?k < length es" using i by simp
    then have late: "\<not> timestamp (es ! ?k) \<le> t" by (rule nth_length_takeWhile)
    have "map timestamp es ! ?k \<le> map timestamp es ! i"
      using s ki i by (intro sorted_nth_mono) simp_all
    then have "timestamp (es ! ?k) \<le> timestamp (es ! i)" using ki i by simp
    then show False using le late by simp
  qed
next
  assume lt: "i < length (takeWhile (\<lambda>e. timestamp e \<le> t) es)"
  then have "takeWhile (\<lambda>e. timestamp e \<le> t) es ! i \<in> set (takeWhile (\<lambda>e. timestamp e \<le> t) es)"
    by simp
  then have "timestamp (takeWhile (\<lambda>e. timestamp e \<le> t) es ! i) \<le> t"
    by (auto dest: set_takeWhileD)
  then show "timestamp (es ! i) \<le> t" using lt by (simp add: takeWhile_nth)
qed

lemma skewedStore_events:
  "events skewedStore = [\<lparr> ev_id = (5, 0), timestamp = 5, body = 0 \<rparr>,
                         \<lparr> ev_id = (10, 1), timestamp = 10, body = 0 \<rparr>,
                         \<lparr> ev_id = (3, 2), timestamp = 3, body = 0 \<rparr>]"
  by (simp add: skewedStore_def addStore_def addReducer_def eval_defs)

lemma map_get_map_set: "map_get (map_set k v ps) j = (if j = k then Some v else map_get ps j)"
  by (induction k v ps rule: map_set.induct) auto

lemma map_get_filter_le:
  "map_get (filter (\<lambda>entry. \<not> fst entry > i) ps) k = (if k \<le> i then map_get ps k else None)"
  by (induction ps) auto


lemma rebuildCheckpoints_initial:
  "hasInitialCheckpoint st \<Longrightarrow> 0 \<le> i \<Longrightarrow> hasInitialCheckpoint (fst (rebuildCheckpoints n i st))"
proof (induction n i st rule: rebuildCheckpoints.induct)
  case (1 interval i st)
  show ?case
  proof (cases "interval = 0 \<or> \<not> i \<le> index st")
    case True
    then have "rebuildCheckpoints interval i st = (st, Inr ())"
      by (subst rebuildCheckpoints.simps) simp
    then show ?thesis using "1.prems" by simp
  next
    case False
    show ?thesis
    proof (cases "projectAtIndex st i")
      case None
      then have "rebuildCheckpoints interval i st = (st, Inl ReducerFault)"
        using False by (subst rebuildCheckpoints.simps) simp
      then show ?thesis using "1.prems" by simp
    next
      case (Some s)
      have h: "hasInitialCheckpoint (st\<lparr> checkpoints := map_set i s (checkpoints st) \<rparr>)"
        using "1.prems" by (simp add: hasInitialCheckpoint_def map_get_map_set)
      have "rebuildCheckpoints interval i st =
            rebuildCheckpoints interval (i + int interval) (st\<lparr> checkpoints := map_set i s (checkpoints st) \<rparr>)"
        using False Some by (subst rebuildCheckpoints.simps) simp
      then show ?thesis using "1.IH" [OF False Some h] "1.prems"(2) by simp
    qed
  qed
qed

lemma new_initial:
  "truthy_b (enableCheckpoints opts) \<Longrightarrow> hasInitialCheckpoint (new_EventStore initial r opts)"
  by (simp add: hasInitialCheckpoint_def new_EventStore_def)

lemma clear_initial:
  "truthy_b (enableCheckpoints (options st)) \<Longrightarrow> hasInitialCheckpoint (clear st)"
  by (simp add: hasInitialCheckpoint_def clear_def Let_def)

lemma restore_initial:
  assumes en: "truthy_b (enableCheckpoints (options st))"
  shows "hasInitialCheckpoint (fst (restore snap st))"
proof -
  define st2 where "st2 = st\<lparr> events := snap_events snap, index := snap_index snap,
      metadata := (case snap_metadata snap of None \<Rightarrow> Map.empty | Some m \<Rightarrow> m),
      checkpoints := [(- 1, initialState st)] \<rparr>"
  have h: "hasInitialCheckpoint st2" by (simp add: st2_def hasInitialCheckpoint_def)
  have "fst (restore snap st) = st2 \<or>
        (\<exists>n. n \<noteq> 0 \<and> fst (restore snap st) = fst (rebuildCheckpoints n (int n - 1) st2))"
    using en unfolding restore_def Let_def st2_def by (auto split: option.splits)
  then show ?thesis
    using h rebuildCheckpoints_initial [OF h] by fastforce
qed

lemma fork_initial:
  assumes en: "truthy_b (enableCheckpoints (options st))" and f: "fork st = Inr forked"
  shows "hasInitialCheckpoint forked"
proof -
  define f3 where "f3 = (new_EventStore (initialState st) (reducer st) (options st) :: ('a, 'b, 'c) EventStore)
      \<lparr> events := getActiveEvents st, index := int (length (getActiveEvents st)) - 1, metadata := metadata st \<rparr>"
  define f4 where "f4 = f3\<lparr> checkpoints := map_set (- 1) (initialState st) (checkpoints f3) \<rparr>"
  have h3: "hasInitialCheckpoint f3"
    using en by (simp add: f3_def hasInitialCheckpoint_def new_EventStore_def)
  have h4: "hasInitialCheckpoint f4"
    by (simp add: f4_def f3_def hasInitialCheckpoint_def new_EventStore_def map_get_map_set)
  have "forked = f3 \<or> (\<exists>n. n \<noteq> 0 \<and> forked = fst (rebuildCheckpoints n (int n - 1) f4))"
    using f unfolding fork_def Let_def f4_def f3_def
    by (auto split: option.splits if_splits prod.splits sum.splits)
  then show ?thesis
    using h3 rebuildCheckpoints_initial [OF h4] by fastforce
qed

lemma cursor_moves_initial:
  assumes h: "hasInitialCheckpoint st"
  shows "hasInitialCheckpoint (fst (undo st))" and "hasInitialCheckpoint (fst (redo st))"
    and "hasInitialCheckpoint (fst (navigate i st))" and "hasInitialCheckpoint (fst (navigateToTime t st))"
    and "hasInitialCheckpoint (setMetadata key v st)"
  using h
  by (simp_all add: hasInitialCheckpoint_def undo_def redo_def navigate_def navigateToTime_def
        setMetadata_def Let_def split: option.splits)

lemma append_initial:
  assumes h: "hasInitialCheckpoint st" and lo: "- 1 \<le> index st"
    and nocap: "\<not> capReached (truncateFuture st)"
  shows "hasInitialCheckpoint (fst (append_event nowId nowTs payload st))"
proof -
  define st2 where "st2 = (truncateFuture st)\<lparr> idCounter := idCounter (truncateFuture st) + 1 \<rparr>"
  define st5 where "st5 = st2\<lparr> events := events st2 @ [newEvent nowId nowTs payload st], index := index st2 + 1 \<rparr>"
  have "\<not> capReached st2" using nocap by (simp add: st2_def capReached_idCounter)
  then have em: "enforceMax st2 = (st2, Inr ())" by (rule enforceMax_nocap)
  have st': "fst (append_event nowId nowTs payload st) = fst (checkpointIfDue st5)"
    unfolding append_event_store Let_def st2_def [symmetric] em st5_def by simp
  have "map_get (checkpoints (truncateFuture st)) (- 1) = map_get (checkpoints st) (- 1)"
    using lo by (simp add: truncateFuture_def map_get_filter_le)
  then have h5: "hasInitialCheckpoint st5"
    using h by (simp add: hasInitialCheckpoint_def st5_def st2_def truncateFuture_fields)
  have "index st5 = index st + 1" by (simp add: st5_def st2_def truncateFuture_def)
  then have "index st5 \<noteq> - 1" using lo by simp
  then have "hasInitialCheckpoint (fst (checkpointIfDue st5))"
    using h5 by (simp add: checkpointIfDue_def hasInitialCheckpoint_def map_get_map_set split: option.splits)
  then show ?thesis by (simp add: st')
qed

lemma threeEvents_value:
  "threeEvents = \<lparr> events = [\<lparr> ev_id = (2, 1), timestamp = 2, body = () \<rparr>,
                              \<lparr> ev_id = (3, 2), timestamp = 3, body = () \<rparr>],
               index = 1, checkpoints = [(0, 2)], idCounter = 3, metadata = Map.empty,
               initialState = 0, reducer = countReducer,
               options = \<lparr> maxEvents = Some 2, enableCheckpoints = Some True,
                           checkpointInterval = Some 100 \<rparr> \<rparr>"
  by (simp add: threeEvents_def enabledStore_def countReducer_def eval_defs)

lemma twoEvents_value:
  "twoEvents = \<lparr> events = [\<lparr> ev_id = (1, 0), timestamp = 1, body = () \<rparr>,
                            \<lparr> ev_id = (2, 1), timestamp = 2, body = () \<rparr>],
               index = 1, checkpoints = [(- 1, 0), (0, 1)], idCounter = 2, metadata = Map.empty,
               initialState = 0, reducer = countReducer,
               options = \<lparr> maxEvents = Some 2, enableCheckpoints = Some True,
                           checkpointInterval = Some 100 \<rparr> \<rparr>"
  by (simp add: twoEvents_def enabledStore_def countReducer_def eval_defs)

lemma prefixFold_Nil: "prefixFold st [] p = fullFold st p"
  by (simp add: prefixFold_def fullFold_def)

lemma reachable_appendAll: "reachable True oor st \<Longrightarrow> reachable True oor (appendAll ps st)"
proof (induction ps st rule: appendAll.induct)
  case (1 st)
  then show ?case by simp
next
  case (2 t p ps st)
  have "reachable True oor (fst (append_event t t p st))"
    by (rule reachable.r_append [OF "2.prems"]) simp
  then show ?case using "2.IH" by simp
qed

lemma twoAdds_reachable: "reachable False False twoAdds"
proof -
  have zero: "reachable False False addStore"
    unfolding addStore_def by (rule reachable.r_new)
  have "\<not> capReached (truncateFuture addStore)"
    by (simp add: addStore_def eval_defs)
  then have one: "reachable False False (fst (append_event 1 1 5 addStore))"
    by (intro reachable.r_append [OF zero] disjI2)
  have "\<not> capReached (truncateFuture (fst (append_event 1 1 5 addStore)))"
    by (simp add: addStore_def addReducer_def eval_defs)
  then have "reachable False False (fst (append_event 2 2 3 (fst (append_event 1 1 5 addStore))))"
    by (intro reachable.r_append [OF one] disjI2)
  then show ?thesis by (simp add: twoAdds_def)
qed

lemma tenEvents_value:
  "tenEvents = \<lparr> events = [\<lparr> ev_id = (7, 6), timestamp = 7, body = () \<rparr>,
                            \<lparr> ev_id = (8, 7), timestamp = 8, body = () \<rparr>,
                            \<lparr> ev_id = (9, 8), timestamp = 9, body = () \<rparr>,
                            \<lparr> ev_id = (10, 9), timestamp = 10, body = () \<rparr>],
               index = 3, checkpoints = [(0, 7)], idCounter = 10, metadata = Map.empty,
               initialState = 0, reducer = countReducer,
               options = \<lparr> maxEvents = Some 5, enableCheckpoints = Some True,
                           checkpointInterval = Some 100 \<rparr> \<rparr>"
  by (simp add: tenEvents_def cappedStore_def countReducer_def eval_defs)

lemma truncateFuture_consistent_explicit:
  assumes c: "consistent st pre"
  shows "consistent (truncateFuture st) (if 0 \<le> index st then pre else [])"
proof (cases "0 \<le> index st")
  case True
  then show ?thesis
    using c truncateFuture_range [of st] truncateFuture_cache [of st pre]
    by (auto simp: consistent_def)
next
  case False
  then show ?thesis
    using c truncateFuture_range [of st] truncateFuture_cache_start [of st pre]
    by (auto simp: consistent_def)
qed

lemma append_success:
  assumes c: "consistent st pre" and en: "truthy_b (enableCheckpoints (options st))"
    and ok: "append_event a b p st = (st', Inr e)"
  shows "e = newEvent a b p st"
    and "events st' = drop (nat (cutover st)) (events (truncateFuture st)) @ [e]"
    and "index st' = int (length (events st')) - 1"
    and "consistent st' ((if 0 \<le> index st then pre else []) @
           take (nat (cutover st)) (events (truncateFuture st)))"
proof -
  define pre1 where "pre1 = (if 0 \<le> index st then pre else [])"
  define m where "m = nat (cutover st)"
  define st2 where "st2 = (truncateFuture st)\<lparr> idCounter := idCounter (truncateFuture st) + 1 \<rparr>"
  define ev where "ev = newEvent a b p st"
  have r: "cursorInRange st" using c by (simp add: consistent_def)
  have c2: "consistent st2 pre1"
    unfolding st2_def pre1_def using truncateFuture_consistent_explicit [OF c]
    by (simp add: consistent_idCounter)
  have last2: "index st2 = int (length (events st2)) - 1"
    unfolding st2_def using truncateFuture_range [OF r] by simp
  have ev2: "events st2 = events (truncateFuture st)" by (simp add: st2_def)
  have en2: "truthy_b (enableCheckpoints (options st2))"
    using en by (simp add: st2_def truncateFuture_fields)
  have cap2: "capReached st2 = capReached (truncateFuture st)"
    unfolding st2_def by (simp add: capReached_idCounter)
  obtain st3 r3 where em: "enforceMax st2 = (st3, r3)" by (cases "enforceMax st2")
  have r3: "r3 = Inr ()"
    using ok em unfolding append_event_def Let_def st2_def [symmetric]
    by (cases r3) (auto split: prod.splits sum.splits option.splits)
  define st5 where "st5 = st3\<lparr> events := events st3 @ [ev], index := index st3 + 1 \<rparr>"
  have unf: "append_event a b p st =
      (case checkpointIfDue st5 of
         (st6, Inl e) \<Rightarrow> (st6, Inl e)
       | (st6, Inr _) \<Rightarrow> (case project st6 of None \<Rightarrow> (st6, Inl ReducerFault) | Some newState \<Rightarrow> (st6, Inr ev)))"
    unfolding append_event_def Let_def st2_def [symmetric] em r3 st5_def ev_def newEvent_def
    by simp
  have e: "e = ev" and st': "st' = fst (checkpointIfDue st5)"
    using ok unfolding unf by (auto split: prod.splits sum.splits option.splits)
  have three: "events st3 = drop m (events st2) \<and> index st3 = int (length (events st3)) - 1 \<and>
               consistent st3 (pre1 @ take m (events st2))"
  proof (cases "capReached st2")
    case False
    then have "st3 = st2" using em enforceMax_nocap [of st2] by simp
    moreover have "m = 0" using False cap2 by (simp add: m_def cutover_def)
    ultimately show ?thesis using c2 last2 by simp
  next
    case True
    have m: "m = length (events st2) div 2"
      using True cap2 by (simp add: m_def cutover_def ev2)
    have cc2: "checkpointsCache st2 pre1" using c2 by (simp add: consistent_def)
    from enforceMax_enabled [OF True en2 cc2 em [unfolded r3]]
    show ?thesis by (simp add: m consistent_def)
  qed
  then have c5: "consistent st5 (pre1 @ take m (events st2))"
    unfolding st5_def by (intro push_consistent) simp_all
  have f5: "events (fst (checkpointIfDue st5)) = events st5 \<and> index (fst (checkpointIfDue st5)) = index st5"
    by (simp add: checkpointIfDue_fields)
  show "e = newEvent a b p st" using e by (simp add: ev_def)
  show "events st' = drop (nat (cutover st)) (events (truncateFuture st)) @ [e]"
    using three f5 by (simp add: st' st5_def e m_def ev2)
  show "index st' = int (length (events st')) - 1"
    using three f5 by (simp add: st' st5_def)
  show "consistent st' ((if 0 \<le> index st then pre else []) @
           take (nat (cutover st)) (events (truncateFuture st)))"
    using checkpointIfDue_consistent [OF c5] by (simp add: st' pre1_def m_def ev2)
qed

lemma cutover_bounds: "0 \<le> cutover st \<and> cutover st \<le> int (length (events (truncateFuture st)))"
  by (simp add: cutover_def)

lemma reduce_snoc:
  "reduce f (xs @ [e]) s = Option.bind (reduce f xs s) (\<lambda>t. f t e)"
  by (cases "reduce f xs s") (auto simp: reduce_append split: option.splits)

lemma append_projection:
  assumes c: "consistent st pre" and en: "truthy_b (enableCheckpoints (options st))"
    and ok: "append_event a b p st = (st', Inr e)"
  shows "project st' = Option.bind (project st) (\<lambda>s. reducer st s e)"
    and "cutover st \<le> q \<Longrightarrow> q \<le> index st \<Longrightarrow>
           projectAtIndex st' (q - cutover st) = projectAtIndex st q"
proof -
  define pre1 where "pre1 = (if 0 \<le> index st then pre else [])"
  define m where "m = nat (cutover st)"
  define ev1 where "ev1 = events (truncateFuture st)"
  note s = append_success [OF c en ok]
  have r: "cursorInRange st" and cc: "checkpointsCache st pre"
    using c by (simp_all add: consistent_def)
  have ev1: "ev1 = take (nat (index st + 1)) (events st)"
    unfolding ev1_def using truncateFuture_range [OF r] by simp
  have m_int: "int m = cutover st"
    using cutover_bounds [of st] by (simp add: m_def)
  have "int m \<le> int (length ev1)"
    unfolding m_int using cutover_bounds [of st] by (simp add: ev1_def)
  then have m_le: "m \<le> length ev1" by simp
  have ev': "events st' = drop m ev1 @ [e]" using s(2) by (simp add: m_def ev1_def)
  have c': "checkpointsCache st' (pre1 @ take m ev1)"
    using s(4) by (simp add: consistent_def pre1_def m_def ev1_def)
  have same: "reducer st' = reducer st \<and> initialState st' = initialState st"
    using append_fields [of a b p st] ok by simp
  have len': "int (length (events st')) = int (length ev1) - int m + 1"
    using m_le by (simp add: ev')
  have old: "projectAtIndex st k = reduce (reducer st) (pre1 @ take (nat (k + 1)) ev1) (initialState st)"
    if "0 \<le> k" "k \<le> index st" for k
  proof -
    have "k < int (length (events st))" using that r by (simp add: cursorInRange_def)
    then have "projectAtIndex st k = prefixFold st pre k"
      using projectAtIndex_consistent [OF cc that(1)] by simp
    moreover have "take (nat (k + 1)) ev1 = take (nat (k + 1)) (events st)"
      using that by (simp add: ev1 min_def)
    ultimately show ?thesis using that by (simp add: prefixFold_def pre1_def)
  qed
  have new: "projectAtIndex st' k =
      reduce (reducer st) (pre1 @ take m ev1 @ take (nat (k + 1)) (drop m ev1 @ [e])) (initialState st)"
    if "0 \<le> k" "k < int (length (events st'))" for k
    using projectAtIndex_consistent [OF c' that] by (simp add: prefixFold_def same ev')
  show "project st' = Option.bind (project st) (\<lambda>s. reducer st s e)"
  proof -
    have ix: "index st' = int (length ev1) - int m" using s(3) len' by simp
    then have "0 \<le> index st'" using m_le by simp
    moreover have "index st' < int (length (events st'))" using s(3) by simp
    ultimately have "project st' =
        reduce (reducer st) (pre1 @ take m ev1 @ take (nat (index st' + 1)) (drop m ev1 @ [e])) (initialState st)"
      unfolding project_def by (rule new)
    moreover have "take (nat (index st' + 1)) (drop m ev1 @ [e]) = drop m ev1 @ [e]"
      using m_le by (simp add: ix nat_add_distrib nat_diff_distrib)
    ultimately have "project st' =
        reduce (reducer st) (pre1 @ take m ev1 @ drop m ev1 @ [e]) (initialState st)"
      by simp
    moreover have "take m ev1 @ drop m ev1 @ [e] = ev1 @ [e]"
      by (metis append_assoc append_take_drop_id)
    ultimately have p': "project st' = reduce (reducer st) (pre1 @ ev1 @ [e]) (initialState st)"
      by simp
    have "project st = reduce (reducer st) (pre1 @ ev1) (initialState st)"
    proof (cases "0 \<le> index st")
      case True
      have "take (nat (index st + 1)) ev1 = ev1" by (simp add: ev1)
      then show ?thesis using old [OF True] by (simp add: project_def)
    next
      case False
      then have "ev1 = []" and "pre1 = []" by (simp_all add: ev1 pre1_def)
      then show ?thesis using False by (simp add: project_def projectAtIndex_def)
    qed
    then show ?thesis
      unfolding p' using reduce_snoc [of "reducer st" "pre1 @ ev1" e "initialState st"] by simp
  qed
  show "projectAtIndex st' (q - cutover st) = projectAtIndex st q"
    if lo: "cutover st \<le> q" and hi: "q \<le> index st"
  proof -
    have q0: "0 \<le> q" using lo cutover_bounds [of st] by simp
    have len1: "int (length ev1) = index st + 1" using q0 hi r by (simp add: ev1 cursorInRange_def)
    have k0: "0 \<le> q - cutover st" using lo by simp
    have kl: "q - cutover st < int (length (events st'))" using hi len1 len' m_int by simp
    have kk: "nat (q - cutover st + 1) \<le> length (drop m ev1)"
      using lo hi len1 m_int m_le by simp
    have "take m ev1 @ take (nat (q - cutover st + 1)) (drop m ev1) = take (m + nat (q - cutover st + 1)) ev1"
      by (simp add: take_add)
    moreover have "m + nat (q - cutover st + 1) = nat (q + 1)" using lo m_int q0 by simp
    ultimately have "take m ev1 @ take (nat (q - cutover st + 1)) (drop m ev1 @ [e]) = take (nat (q + 1)) ev1"
      using kk by simp
    then show ?thesis using new [OF k0 kl] old [OF q0 hi] by simp
  qed
qed

lemma fiveEvents_value:
  "fiveEvents = \<lparr> events = [\<lparr> ev_id = (1, 0), timestamp = 1, body = () \<rparr>,
                             \<lparr> ev_id = (2, 1), timestamp = 2, body = () \<rparr>,
                             \<lparr> ev_id = (3, 2), timestamp = 3, body = () \<rparr>,
                             \<lparr> ev_id = (4, 3), timestamp = 4, body = () \<rparr>,
                             \<lparr> ev_id = (5, 4), timestamp = 5, body = () \<rparr>],
               index = 4, checkpoints = [(0, 1)], idCounter = 5, metadata = Map.empty,
               initialState = 0, reducer = countReducer,
               options = \<lparr> maxEvents = Some 5, enableCheckpoints = Some True,
                           checkpointInterval = Some 100 \<rparr> \<rparr>"
  by (simp add: fiveEvents_def cappedStore_def countReducer_def eval_defs)

lemma fiveUncheckpointed_value:
  "fiveUncheckpointed = \<lparr> events = [\<lparr> ev_id = (1, 0), timestamp = 1, body = () \<rparr>,
                             \<lparr> ev_id = (2, 1), timestamp = 2, body = () \<rparr>,
                             \<lparr> ev_id = (3, 2), timestamp = 3, body = () \<rparr>,
                             \<lparr> ev_id = (4, 3), timestamp = 4, body = () \<rparr>,
                             \<lparr> ev_id = (5, 4), timestamp = 5, body = () \<rparr>],
               index = 4, checkpoints = [], idCounter = 5, metadata = Map.empty,
               initialState = 0, reducer = countReducer,
               options = \<lparr> maxEvents = Some 5, enableCheckpoints = Some False,
                           checkpointInterval = Some 100 \<rparr> \<rparr>"
  by (simp add: fiveUncheckpointed_def countReducer_def eval_defs)

lemma projectAtIndex_pure:
  assumes c: "cachePure st \<or> \<not> truthy_b (enableCheckpoints (options st))"
  shows "projectAtIndex st p = fullFold st p"
proof (cases "p < 0")
  case True
  then show ?thesis by (simp add: projectAtIndex_def fullFold_def)
next
  case p0: False
  show ?thesis
  proof (cases "truthy_b (enableCheckpoints (options st))")
    case False
    then show ?thesis using p0 by (simp add: projectAtIndex_def fullFold_def slice_0)
  next
    case True
    then have pure: "cachePure st" using c by simp
    define near where "near = nearest p (checkpoints st) (- 1, initialState st)"
    have proj: "projectAtIndex st p = reduce (reducer st) (slice (events st) (fst near + 1) (p + 1)) (snd near)"
      using True p0 by (simp add: projectAtIndex_def near_def Let_def)
    from nearest_cases [of p "checkpoints st" "(- 1, initialState st)"]
    consider (start) "near = (- 1, initialState st)"
      | (entry) "near \<in> set (checkpoints st)" "fst near \<le> p" "- 1 < fst near"
      unfolding near_def by auto
    then show ?thesis
    proof cases
      case start
      then show ?thesis using proj p0 by (simp add: fullFold_def slice_0)
    next
      case entry
      then have k0: "0 \<le> fst near" by simp
      have cached: "fullFold st (fst near) = Some (snd near)"
        using pure entry(1) k0 by (auto simp: cachePure_def)
      have sl: "slice (events st) (fst near + 1) (p + 1) =
                take (nat (p - fst near)) (drop (nat (fst near + 1)) (events st))"
        using k0 entry(2) by (simp add: slice_ge)
      have "take (nat (p + 1)) (events st) =
            take (nat (fst near + 1)) (events st) @
            take (nat (p + 1) - nat (fst near + 1)) (drop (nat (fst near + 1)) (events st))"
        using k0 entry(2) by (intro take_split) simp
      moreover have "nat (p + 1) - nat (fst near + 1) = nat (p - fst near)"
        using k0 entry(2) by simp
      ultimately have "fullFold st p =
          reduce (reducer st) (take (nat (fst near + 1)) (events st) @
             take (nat (p - fst near)) (drop (nat (fst near + 1)) (events st))) (initialState st)"
        by (simp add: fullFold_def)
      also have "\<dots> = reduce (reducer st) (take (nat (p - fst near)) (drop (nat (fst near + 1)) (events st))) (snd near)"
        using cached by (simp only: reduce_append fullFold_def option.case)
      finally show ?thesis using proj sl by simp
    qed
  qed
qed

lemma reachable_inrange_consistent:
  "reachable ev False st \<Longrightarrow> \<exists>pre. consistent st pre \<and> (\<not> ev \<longrightarrow> pre = [])"
  using reachable_consistent [of ev False st] by simp

lemma consistent_pure:
  "consistent st [] \<Longrightarrow> cachePure st \<or> \<not> truthy_b (enableCheckpoints (options st))"
  by (auto simp: consistent_def checkpointsCache_def cachePure_def prefixFold_Nil)

lemma strayedStore_value:
  "strayedStore = \<lparr> events = [\<lparr> ev_id = (1, 0), timestamp = 1, body = 5 \<rparr>,
                                \<lparr> ev_id = (2, 0), timestamp = 2, body = 3 \<rparr>],
               index = 4, checkpoints = [(- 1, 0), (1, 5), (3, 5), (4, 5)], idCounter = 1,
               metadata = Map.empty, initialState = 0, reducer = addReducer,
               options = \<lparr> maxEvents = Some 10000, enableCheckpoints = Some True,
                           checkpointInterval = Some 2 \<rparr> \<rparr>"
  by (simp add: strayedStore_def strayedSnapshot_def intervalStore_def restore_def
        rebuildCheckpoints.simps addReducer_def eval_defs)

lemma strayedStore_reachable: "reachable False True strayedStore"
proof -
  have zero: "reachable False True intervalStore"
    unfolding intervalStore_def by (rule reachable.r_new)
  have one: "reachable False True (fst (restore strayedSnapshot intervalStore))"
    by (rule reachable.r_restore [OF zero]) simp
  have "\<not> capReached (truncateFuture (fst (restore strayedSnapshot intervalStore)))"
    by (simp add: strayedSnapshot_def intervalStore_def restore_def rebuildCheckpoints.simps
          addReducer_def eval_defs)
  then show ?thesis
    unfolding strayedStore_def by (intro reachable.r_append [OF one] disjI2)
qed

lemma projectAtIndex_idCounter: "projectAtIndex (st\<lparr> idCounter := n \<rparr>) p = projectAtIndex st p"
  by (simp add: projectAtIndex_def Let_def cong: if_cong)

lemma seeded_projection_one:
  assumes en: "truthy_b (enableCheckpoints (options st))" and cps: "checkpoints st = [(0, cs)]"
    and k0: "0 \<le> k"
  shows "projectAtIndex st k = reduce (reducer st) (take (nat k) (drop 1 (events st))) cs"
proof -
  have "nearest k (checkpoints st) (- 1, initialState st) = (0, cs)"
    using k0 by (simp add: cps nearest_def nearest_step_def)
  then show ?thesis
    using en k0 slice_ge [of 1 "k + 1" "events st"]
    by (simp add: projectAtIndex_def Let_def)
qed

lemma seeded_projection_two:
  assumes en: "truthy_b (enableCheckpoints (options st))" and cps: "checkpoints st = [(0, cs), (j, s)]"
    and j0: "0 < j" and cached: "reduce (reducer st) (take (nat j) (drop 1 (events st))) cs = Some s"
    and k0: "0 \<le> k"
  shows "projectAtIndex st k = reduce (reducer st) (take (nat k) (drop 1 (events st))) cs"
proof (cases "j \<le> k")
  case False
  then have "nearest k (checkpoints st) (- 1, initialState st) = (0, cs)"
    using k0 by (simp add: cps nearest_def nearest_step_def)
  then show ?thesis
    using en k0 slice_ge [of 1 "k + 1" "events st"]
    by (simp add: projectAtIndex_def Let_def)
next
  case True
  then have near: "nearest k (checkpoints st) (- 1, initialState st) = (j, s)"
    using k0 j0 by (simp add: cps nearest_def nearest_step_def)
  have sl: "slice (events st) (j + 1) (k + 1) = take (nat (k - j)) (drop (nat (j + 1)) (events st))"
    using j0 True by (simp add: slice_ge)
  have proj: "projectAtIndex st k =
      reduce (reducer st) (take (nat (k - j)) (drop (nat (j + 1)) (events st))) s"
    using en k0 near sl by (simp add: projectAtIndex_def Let_def)
  have "take (nat k) (drop 1 (events st)) =
        take (nat j) (drop 1 (events st)) @ take (nat k - nat j) (drop (nat j) (drop 1 (events st)))"
    using True j0 by (intro take_split) simp
  moreover have "nat k - nat j = nat (k - j)" using True j0 by simp
  moreover have "drop (nat j) (drop 1 (events st)) = drop (nat (j + 1)) (events st)"
    using j0 by (simp add: nat_add_distrib)
  ultimately have "reduce (reducer st) (take (nat k) (drop 1 (events st))) cs =
      reduce (reducer st) (take (nat (k - j)) (drop (nat (j + 1)) (events st))) s"
    using cached by (simp add: reduce_append)
  then show ?thesis using proj by simp
qed

lemma eviction_seed:
  assumes cap: "capReached (truncateFuture st)" and en: "truthy_b (enableCheckpoints (options st))"
    and ok: "append_event a b p st = (st', Inr e)"
  shows "events st' = drop (nat (cutover st)) (events (truncateFuture st)) @ [e]"
    and "\<exists>seed. projectAtIndex (truncateFuture st) (cutover st) = Some seed \<and>
           map_get (checkpoints st') 0 = Some seed \<and>
           (\<forall>k. 0 \<le> k \<longrightarrow>
              projectAtIndex st' k =
                reduce (reducer st)
                  (take (nat k) (drop (nat (cutover st) + 1) (events (truncateFuture st)) @ [e])) seed)"
proof -
  define ev1 where "ev1 = events (truncateFuture st)"
  define mid where "mid = length ev1 div 2"
  define st2 where "st2 = (truncateFuture st)\<lparr> idCounter := idCounter (truncateFuture st) + 1 \<rparr>"
  define ev where "ev = newEvent a b p st"
  have cap2: "capReached st2" using cap by (simp add: st2_def capReached_idCounter)
  have en2: "truthy_b (enableCheckpoints (options st2))"
    using en by (simp add: st2_def truncateFuture_fields)
  have ev2: "events st2 = ev1" by (simp add: st2_def ev1_def)
  have pos: "0 < length ev1" using capReached_nonempty [OF cap] by (simp add: ev1_def)
  then have midlt: "mid < length ev1" by (simp add: mid_def)
  have cut: "cutover st = int mid" using cap by (simp add: cutover_def mid_def ev1_def)
  obtain st3 r3 where em: "enforceMax st2 = (st3, r3)" by (cases "enforceMax st2")
  have r3: "r3 = Inr ()"
    using ok em unfolding append_event_def Let_def st2_def [symmetric]
    by (cases r3) (auto split: prod.splits sum.splits option.splits)
  obtain cs where cs: "projectAtIndex st2 (int mid) = Some cs"
    and st3: "st3 = st2\<lparr> checkpoints := [(0, cs)], events := drop mid ev1,
                            index := int (length ev1 - mid) - 1 \<rparr>"
    using em r3 cap2 en2 midlt
    by (auto simp: enforceMax_def Let_def slice_from_ge ev2 mid_def split: option.splits)
  have seed: "projectAtIndex (truncateFuture st) (cutover st) = Some cs"
    using cs by (simp add: cut st2_def projectAtIndex_idCounter)
  define st5 where "st5 = st3\<lparr> events := events st3 @ [ev], index := index st3 + 1 \<rparr>"
  have unf: "append_event a b p st =
      (case checkpointIfDue st5 of
         (st6, Inl e) \<Rightarrow> (st6, Inl e)
       | (st6, Inr _) \<Rightarrow> (case project st6 of None \<Rightarrow> (st6, Inl ReducerFault) | Some newState \<Rightarrow> (st6, Inr ev)))"
    unfolding append_event_def Let_def st2_def [symmetric] em r3 st5_def ev_def newEvent_def
    by simp
  have e: "e = ev" and st': "st' = fst (checkpointIfDue st5)" and due: "snd (checkpointIfDue st5) = Inr ()"
    using ok unfolding unf by (auto split: prod.splits sum.splits option.splits)
  have ev5: "events st5 = drop mid ev1 @ [e]" by (simp add: st5_def st3 e)
  have ix5: "index st5 = int (length ev1 - mid)" by (simp add: st5_def st3)
  have en5: "truthy_b (enableCheckpoints (options st5))" using en2 by (simp add: st5_def st3)
  have r5: "reducer st5 = reducer st" by (simp add: st5_def st3 st2_def truncateFuture_fields)
  have cp5: "checkpoints st5 = [(0, cs)]" by (simp add: st5_def st3)
  have "drop mid ev1 \<noteq> []" using midlt by simp
  then have tail: "drop 1 (events st5) = drop (mid + 1) ev1 @ [e]"
    by (simp add: ev5 drop_Suc_Cons [symmetric] drop_Suc tl_append2 drop_tl [symmetric] tl_drop)
  have p5: "projectAtIndex st5 k = reduce (reducer st) (take (nat k) (drop (mid + 1) ev1 @ [e])) cs"
    if "0 \<le> k" for k
    using seeded_projection_one [OF en5 cp5 that] by (simp only: tail r5)
  have f': "events st' = events st5 \<and> reducer st' = reducer st5 \<and> options st' = options st5"
    by (simp add: st' checkpointIfDue_fields)
  show "events st' = drop (nat (cutover st)) (events (truncateFuture st)) @ [e]"
    using f' ev5 by (simp add: cut ev1_def)
  have main: "map_get (checkpoints st') 0 = Some cs \<and>
      (\<forall>k. 0 \<le> k \<longrightarrow> projectAtIndex st' k =
          reduce (reducer st) (take (nat k) (drop (mid + 1) ev1 @ [e])) cs)"
  proof (cases "checkpointDue st5")
    case False
    then have "st' = st5" by (simp add: st' checkpointIfDue_def)
    then show ?thesis using p5 cp5 by simp
  next
    case True
    then obtain s where s: "project st5 = Some s"
      and st'5: "st' = st5\<lparr> checkpoints := map_set (index st5) s (checkpoints st5) \<rparr>"
      using due by (auto simp: st' checkpointIfDue_def split: option.splits)
    have j0: "0 < index st5" using midlt by (simp add: ix5)
    then have cps': "checkpoints st' = [(0, cs), (index st5, s)]"
      by (simp add: st'5 cp5)
    have en': "truthy_b (enableCheckpoints (options st'))" using en5 f' by simp
    have "projectAtIndex st5 (index st5) = Some s" using s by (simp add: project_def)
    have f1: "events st' = events st5" and f2: "reducer st' = reducer st" using f' r5 by simp_all
    have cached: "reduce (reducer st') (take (nat (index st5)) (drop 1 (events st'))) cs = Some s"
      using p5 [of "index st5"] j0 \<open>projectAtIndex st5 (index st5) = Some s\<close>
      by (simp only: f1 f2 tail)
    have "projectAtIndex st' k = reduce (reducer st) (take (nat k) (drop (mid + 1) ev1 @ [e])) cs"
      if "0 \<le> k" for k
      using seeded_projection_two [OF en' cps' j0 cached that] by (simp only: f1 f2 tail)
    then show ?thesis by (simp add: cps')
  qed
  show "\<exists>seed. projectAtIndex (truncateFuture st) (cutover st) = Some seed \<and>
           map_get (checkpoints st') 0 = Some seed \<and>
           (\<forall>k. 0 \<le> k \<longrightarrow>
              projectAtIndex st' k =
                reduce (reducer st)
                  (take (nat k) (drop (nat (cutover st) + 1) (events (truncateFuture st)) @ [e])) seed)"
    using seed main by (intro exI [of _ cs]) (simp add: cut ev1_def)
qed

lemma fullFold_prefix_Some:
  assumes le: "i \<le> j" and ok: "fullFold st j \<noteq> None"
  shows "fullFold st i \<noteq> None"
proof -
  have "take (nat (j + 1)) (events st) =
        take (nat (i + 1)) (events st) @ take (nat (j + 1) - nat (i + 1)) (drop (nat (i + 1)) (events st))"
    using le by (intro take_split) linarith
  then show ?thesis
    using ok reduce_prefix_Some [of "reducer st" "take (nat (i + 1)) (events st)" _ "initialState st"]
    by (fastforce simp: fullFold_def)
qed

lemma cachePure_map_set:
  assumes c: "cachePure st" and new: "0 \<le> k \<Longrightarrow> fullFold st k = Some s"
  shows "cachePure (st\<lparr> checkpoints := map_set k s (checkpoints st) \<rparr>)"
proof -
  have ff: "fullFold (st\<lparr> checkpoints := map_set k s (checkpoints st) \<rparr>) j = fullFold st j" for j
    by (simp add: fullFold_def)
  show ?thesis
    unfolding cachePure_def ff
    using c new set_map_set [of k s "checkpoints st"]
    by (auto simp: cachePure_def)
qed

lemma rebuildCheckpoints_pure:
  "cachePure st \<Longrightarrow> cachePure (fst (rebuildCheckpoints n i st))"
proof (induction n i st rule: rebuildCheckpoints.induct)
  case (1 interval i st)
  show ?case
  proof (cases "interval = 0 \<or> \<not> i \<le> index st")
    case True
    then have "rebuildCheckpoints interval i st = (st, Inr ())"
      by (subst rebuildCheckpoints.simps) simp
    then show ?thesis using "1.prems" by simp
  next
    case False
    show ?thesis
    proof (cases "projectAtIndex st i")
      case None
      then have "rebuildCheckpoints interval i st = (st, Inl ReducerFault)"
        using False by (subst rebuildCheckpoints.simps) simp
      then show ?thesis using "1.prems" by simp
    next
      case (Some s)
      have "fullFold st i = Some s"
        using projectAtIndex_pure [of st i] "1.prems" Some by simp
      then have c': "cachePure (st\<lparr> checkpoints := map_set i s (checkpoints st) \<rparr>)"
        by (intro cachePure_map_set [OF "1.prems"])
      have "rebuildCheckpoints interval i st =
            rebuildCheckpoints interval (i + int interval) (st\<lparr> checkpoints := map_set i s (checkpoints st) \<rparr>)"
        using False Some by (subst rebuildCheckpoints.simps) simp
      then show ?thesis using "1.IH" [OF False Some c'] by simp
    qed
  qed
qed

lemma rebuildCheckpoints_succeeds_pure:
  "cachePure st \<Longrightarrow> fullFold st (index st) \<noteq> None \<Longrightarrow> snd (rebuildCheckpoints n i st) = Inr ()"
proof (induction n i st rule: rebuildCheckpoints.induct)
  case (1 interval i st)
  show ?case
  proof (cases "interval = 0 \<or> \<not> i \<le> index st")
    case True
    then have "rebuildCheckpoints interval i st = (st, Inr ())"
      by (subst rebuildCheckpoints.simps) simp
    then show ?thesis by simp
  next
    case False
    then have le: "i \<le> index st" by simp
    have "fullFold st i \<noteq> None" by (rule fullFold_prefix_Some [OF le "1.prems"(2)])
    then obtain s where ff: "fullFold st i = Some s" by auto
    then have s: "projectAtIndex st i = Some s"
      using projectAtIndex_pure [of st i] "1.prems"(1) by simp
    define st' where "st' = st\<lparr> checkpoints := map_set i s (checkpoints st) \<rparr>"
    have c': "cachePure st'"
      unfolding st'_def using ff by (intro cachePure_map_set [OF "1.prems"(1)])
    have p': "fullFold st' (index st') \<noteq> None"
      using "1.prems"(2) by (simp add: fullFold_def st'_def)
    have "rebuildCheckpoints interval i st = rebuildCheckpoints interval (i + int interval) st'"
      using False s unfolding st'_def by (subst rebuildCheckpoints.simps) simp
    then show ?thesis
      using "1.IH" [OF False s c' [unfolded st'_def] p' [unfolded st'_def]]
      by (simp add: st'_def)
  qed
qed

lemma restore_pure: "cachePure (fst (restore snap st))"
proof -
  define st1 where "st1 = st\<lparr> events := snap_events snap, index := snap_index snap,
      metadata := (case snap_metadata snap of None \<Rightarrow> Map.empty | Some m \<Rightarrow> m), checkpoints := [] \<rparr>"
  define st2 where "st2 = st1\<lparr> checkpoints := map_set (- 1) (initialState st1) (checkpoints st1) \<rparr>"
  have c1: "cachePure st1" by (simp add: st1_def cachePure_def)
  have c2: "cachePure st2" by (simp add: st2_def st1_def cachePure_def)
  have "fst (restore snap st) = st1 \<or> fst (restore snap st) = st2 \<or>
        (\<exists>n. n \<noteq> 0 \<and> fst (restore snap st) = fst (rebuildCheckpoints n (int n - 1) st2))"
    unfolding restore_def st1_def [symmetric] Let_def st2_def [symmetric]
    by (auto split: option.splits)
  then show ?thesis
    using c1 c2 rebuildCheckpoints_pure [OF c2] by fastforce
qed

lemma restore_project:
  "project (fst (restore snap st)) =
     reduce (reducer st) (take (nat (snap_index snap + 1)) (snap_events snap)) (initialState st)"
  using projectAtIndex_pure [of "fst (restore snap st)" "snap_index snap"] restore_pure [of snap st]
    restore_fields [of snap st]
  by (simp add: project_def fullFold_def)

lemma restore_returns:
  assumes ok: "reduce (reducer st) (take (nat (snap_index snap + 1)) (snap_events snap)) (initialState st) \<noteq> None"
  shows "snd (restore snap st) = Inr ()"
proof -
  define st1 where "st1 = st\<lparr> events := snap_events snap, index := snap_index snap,
      metadata := (case snap_metadata snap of None \<Rightarrow> Map.empty | Some m \<Rightarrow> m), checkpoints := [] \<rparr>"
  define st2 where "st2 = st1\<lparr> checkpoints := map_set (- 1) (initialState st1) (checkpoints st1) \<rparr>"
  have c2: "cachePure st2" by (simp add: st2_def st1_def cachePure_def)
  have p2: "fullFold st2 (index st2) \<noteq> None"
    using ok by (simp add: fullFold_def st2_def st1_def)
  have "snd (restore snap st) = Inr () \<or>
        (\<exists>n. n \<noteq> 0 \<and> snd (restore snap st) = snd (rebuildCheckpoints n (int n - 1) st2))"
    unfolding restore_def st1_def [symmetric] Let_def st2_def [symmetric]
    by (auto split: option.splits)
  then show ?thesis
    using rebuildCheckpoints_succeeds_pure [OF c2 p2] by fastforce
qed

lemma restoreRaw_typed:
  "restoreRaw (rawOf snap) st =
     (fieldsOf (fst (restore snap st)),
      (case snd (restore snap st) of Inl e \<Rightarrow> Inl (Thrown e) | Inr u \<Rightarrow> Inr ()))"
  by (simp add: restoreRaw_def restore_def rawOf_def Let_def split: option.splits prod.splits sum.splits)

lemma fst_restoreRaw_case:
  "fst (case p of (st3, Inl e) \<Rightarrow> (fieldsOf st3, Inl (Thrown e))
                | (st3, Inr u) \<Rightarrow> (fieldsOf st3, Inr ())) = fieldsOf (fst p)"
  by (simp split: prod.splits sum.splits)

lemma fieldsOf_sel:
  "f_events (fieldsOf st) = events st \<and> f_index (fieldsOf st) = Some (index st) \<and>
   f_metadata (fieldsOf st) = metadata st \<and> f_checkpoints (fieldsOf st) = checkpoints st"
  by (simp add: fieldsOf_def)

lemma restoreRaw_present:
  assumes "raw_events snap = Some evs"
  shows "f_events (fst (restoreRaw snap st)) = evs \<and>
         f_index (fst (restoreRaw snap st)) = raw_index snap \<and>
         f_metadata (fst (restoreRaw snap st)) =
           (case raw_metadata snap of None \<Rightarrow> Map.empty | Some m \<Rightarrow> m)"
proof (cases "raw_index snap")
  case None
  then show ?thesis using assms by (simp add: restoreRaw_def Let_def)
next
  case (Some i)
  then show ?thesis
    using assms
    by (simp add: restoreRaw_def Let_def fst_restoreRaw_case fieldsOf_sel rebuildCheckpoints_fields
          split: option.splits)
qed









section \<open>Claims\<close>

text \<open>
  C1 (amended). For every store that the constructor and the public operations reach
  without an append that found the maximum log length reached and without a \<open>restore\<close>
  of a snapshot whose index lies outside \<open>-1..events.length-1\<close>, the cursor is in
  \<open>-1..log.length-1\<close> and projecting at any position \<open>p\<close> with
  \<open>-1 \<le> p \<le> log.length - 1\<close> through the checkpoints yields the fold of the transition
  function over log positions \<open>0..p\<close> from the initial state, for every checkpoint
  interval and also with checkpointing disabled. The same holds, at every position, of
  every store whose checkpoints at positions \<open>k \<ge> 0\<close> each hold the fold over log
  positions \<open>0..k\<close>, and of every store with checkpointing disabled. For every store
  reached without such a \<open>restore\<close>, with or without eviction, there is a list \<open>pre\<close>
  of events such that projecting at \<open>p \<ge> 0\<close> yields the fold over \<open>pre\<close> followed by
  log positions \<open>0..p\<close>, and projecting at \<open>-1\<close> yields the initial state.
\<close>

theorem checkpoint_projection:
  "(reachable False False st \<longrightarrow>
      cursorInRange st \<and>
      (\<forall>p. - 1 \<le> p \<and> p \<le> int (length (events st)) - 1 \<longrightarrow> projectAtIndex st p = fullFold st p)) \<and>
   (cachePure st \<or> \<not> truthy_b (enableCheckpoints (options st)) \<longrightarrow>
      (\<forall>p. projectAtIndex st p = fullFold st p)) \<and>
   (reachable ev False st \<longrightarrow>
      (\<exists>pre. \<forall>p. - 1 \<le> p \<and> p \<le> int (length (events st)) - 1 \<longrightarrow>
         projectAtIndex st p = (if p < 0 then Some (initialState st) else prefixFold st pre p)))"
proof (intro conjI impI)
  assume r: "reachable False False st"
  obtain pre where "consistent st pre" "\<not> False \<longrightarrow> pre = []"
    using reachable_inrange_consistent [OF r] by (elim exE conjE)
  then have c: "consistent st []" by simp
  show "cursorInRange st" using c by (simp add: consistent_def)
  show "\<forall>p. - 1 \<le> p \<and> p \<le> int (length (events st)) - 1 \<longrightarrow> projectAtIndex st p = fullFold st p"
    using projectAtIndex_pure [OF consistent_pure [OF c]] by simp
next
  assume "cachePure st \<or> \<not> truthy_b (enableCheckpoints (options st))"
  then show "\<forall>p. projectAtIndex st p = fullFold st p"
    using projectAtIndex_pure by blast
next
  assume r: "reachable ev False st"
  obtain pre where c: "consistent st pre"
    using reachable_inrange_consistent [OF r] by (elim exE conjE)
  have cc: "checkpointsCache st pre" using c by (simp add: consistent_def)
  have "projectAtIndex st p = (if p < 0 then Some (initialState st) else prefixFold st pre p)"
    if "- 1 \<le> p" "p \<le> int (length (events st)) - 1" for p
  proof (cases "p < 0")
    case True
    then show ?thesis by (simp add: projectAtIndex_def)
  next
    case False
    then show ?thesis using projectAtIndex_consistent [OF cc, of p] that by simp
  qed
  then show "\<exists>pre. \<forall>p. - 1 \<le> p \<and> p \<le> int (length (events st)) - 1 \<longrightarrow>
         projectAtIndex st p = (if p < 0 then Some (initialState st) else prefixFold st pre p)"
    by (intro exI [of _ pre]) simp
qed

theorem checkpoint_projection_counterexample:
  "reachable True False tenEvents \<and> (3 :: int) \<le> int (length (events tenEvents)) - 1 \<and>
   projectAtIndex tenEvents 3 = Some 10 \<and> fullFold tenEvents 3 = Some 4 \<and>
   reachable False True strayedStore \<and> (1 :: int) \<le> int (length (events strayedStore)) - 1 \<and>
   projectAtIndex strayedStore 1 = Some 5 \<and> fullFold strayedStore 1 = Some 8"
proof -
  have "reachable True False cappedStore" unfolding cappedStore_def by (rule reachable.r_new)
  then have "reachable True False tenEvents" unfolding tenEvents_def by (rule reachable_appendAll)
  moreover have "projectAtIndex tenEvents 3 = Some 10"
    by (simp add: tenEvents_value countReducer_def eval_defs)
  moreover have "fullFold tenEvents 3 = Some 4"
    by (simp add: tenEvents_value countReducer_def fullFold_def)
  moreover have "projectAtIndex strayedStore 1 = Some 5"
    by (simp add: strayedStore_value addReducer_def eval_defs)
  moreover have "fullFold strayedStore 1 = Some 8"
    by (simp add: strayedStore_value addReducer_def fullFold_def)
  ultimately show ?thesis
    using strayedStore_reachable by (simp add: tenEvents_value strayedStore_value)
qed

theorem checkpoint_projection_witness:
  "reachable False False twoAdds \<and> cursorInRange twoAdds \<and> cachePure twoAdds \<and>
   (1 :: int) \<le> int (length (events twoAdds)) - 1 \<and>
   projectAtIndex twoAdds 1 = fullFold twoAdds 1 \<and> fullFold twoAdds 1 = Some 8 \<and>
   projectAtIndex twoAdds 0 = fullFold twoAdds 0 \<and> fullFold twoAdds 0 = Some 5 \<and>
   projectAtIndex twoAdds 7 = fullFold twoAdds 7"
proof -
  have l: "(1 :: int) \<le> int (length (events twoAdds)) - 1"
    and l0: "(0 :: int) \<le> int (length (events twoAdds)) - 1"
    by (simp_all add: twoAdds_value)
  have pure: "cachePure twoAdds"
    by (simp add: cachePure_def twoAdds_value fullFold_def addReducer_def)
  note fact = checkpoint_projection [of twoAdds False]
  have rng: "cursorInRange twoAdds"
    and all: "\<forall>p. - 1 \<le> p \<and> p \<le> int (length (events twoAdds)) - 1 \<longrightarrow>
                 projectAtIndex twoAdds p = fullFold twoAdds p"
    using fact twoAdds_reachable by simp_all
  have any: "\<forall>p. projectAtIndex twoAdds p = fullFold twoAdds p"
    using fact pure by simp
  have "projectAtIndex twoAdds 1 = fullFold twoAdds 1" using all [rule_format, of 1] l by simp
  moreover have "projectAtIndex twoAdds 0 = fullFold twoAdds 0" using all [rule_format, of 0] l0 by simp
  moreover have "fullFold twoAdds 1 = Some 8" "fullFold twoAdds 0 = Some 5"
    by (simp_all add: twoAdds_value fullFold_def addReducer_def)
  ultimately show ?thesis using l twoAdds_reachable rng pure any by simp
qed

text \<open>
  C2 (amended). With maximum log length 5 and checkpointing at its defaults, after ten
  appends against the counting reducer \<open>getEvents().length \<le> 5\<close> and \<open>project()\<close> is
  10. In general, with checkpointing enabled, a successful \<open>append\<close> that runs the
  eviction on any store leaves the log cut at the cutover and extended by the new event,
  with a seed checkpoint at position \<open>0\<close> that holds the projection of the store at the
  cutover, and every projection of the new store is that seed advanced by the surviving
  events after the cutover. For every store reached without a \<open>restore\<close> of a snapshot
  whose index lies outside \<open>-1..events.length-1\<close>, a successful \<open>append\<close> with
  checkpointing enabled, with or without eviction, makes \<open>project()\<close> the previous
  projection advanced by the new event, and every surviving position at or after the
  cutover projects to the state it projected to before.
\<close>

theorem eviction_keeps_state:
  "length (getEvents tenEvents) \<le> 5 \<and> project tenEvents = Some 10 \<and>
   (capReached (truncateFuture st) \<and> truthy_b (enableCheckpoints (options st)) \<and>
    append_event nowId nowTs payload st = (st', Inr e) \<longrightarrow>
      getEvents st' = drop (nat (cutover st)) (events (truncateFuture st)) @ [e] \<and>
      (\<exists>seed. projectAtIndex (truncateFuture st) (cutover st) = Some seed \<and>
         map_get (checkpoints st') 0 = Some seed \<and>
         (\<forall>k. 0 \<le> k \<longrightarrow>
            projectAtIndex st' k =
              reduce (reducer st)
                (take (nat k) (drop (nat (cutover st) + 1) (events (truncateFuture st)) @ [e])) seed))) \<and>
   (reachable ev False st \<and> truthy_b (enableCheckpoints (options st)) \<and>
    append_event nowId nowTs payload st = (st', Inr e) \<longrightarrow>
      getEvents st' = drop (nat (cutover st)) (events (truncateFuture st)) @ [e] \<and>
      project st' = Option.bind (project st) (\<lambda>s. reducer st s e) \<and>
      (\<forall>q. cutover st \<le> q \<and> q \<le> index st \<longrightarrow>
           projectAtIndex st' (q - cutover st) = projectAtIndex st q))"
proof -
  have ex: "length (getEvents tenEvents) \<le> 5 \<and> project tenEvents = Some 10"
    by (simp add: tenEvents_value getEvents_def countReducer_def eval_defs)
  have seed: "getEvents st' = drop (nat (cutover st)) (events (truncateFuture st)) @ [e] \<and>
      (\<exists>seed. projectAtIndex (truncateFuture st) (cutover st) = Some seed \<and>
         map_get (checkpoints st') 0 = Some seed \<and>
         (\<forall>k. 0 \<le> k \<longrightarrow>
            projectAtIndex st' k =
              reduce (reducer st)
                (take (nat k) (drop (nat (cutover st) + 1) (events (truncateFuture st)) @ [e])) seed))"
    if cap: "capReached (truncateFuture st)" and en: "truthy_b (enableCheckpoints (options st))"
      and ok: "append_event nowId nowTs payload st = (st', Inr e)"
    using eviction_seed [OF cap en ok] by (simp add: getEvents_def)
  have gen: "getEvents st' = drop (nat (cutover st)) (events (truncateFuture st)) @ [e] \<and>
      project st' = Option.bind (project st) (\<lambda>s. reducer st s e) \<and>
      (\<forall>q. cutover st \<le> q \<and> q \<le> index st \<longrightarrow>
           projectAtIndex st' (q - cutover st) = projectAtIndex st q)"
    if r: "reachable ev False st" and en: "truthy_b (enableCheckpoints (options st))"
      and ok: "append_event nowId nowTs payload st = (st', Inr e)"
  proof -
    obtain pre where c: "consistent st pre"
      using reachable_inrange_consistent [OF r] by (elim exE conjE)
    show ?thesis
      using append_success(2) [OF c en ok] append_projection [OF c en ok]
      by (simp add: getEvents_def)
  qed
  show ?thesis using ex seed gen by (intro conjI impI) simp_all
qed

theorem eviction_keeps_state_witness:
  "reachable True False fiveEvents \<and> truthy_b (enableCheckpoints (options fiveEvents)) \<and>
   capReached (truncateFuture fiveEvents) \<and> cutover fiveEvents = 2 \<and>
   snd (append_event 6 6 () fiveEvents) = Inr \<lparr> ev_id = (6, 5), timestamp = 6, body = () \<rparr> \<and>
   length (getEvents (fst (append_event 6 6 () fiveEvents))) = 4 \<and>
   projectAtIndex (truncateFuture fiveEvents) 2 = Some 3 \<and>
   map_get (checkpoints (fst (append_event 6 6 () fiveEvents))) 0 = Some 3 \<and>
   project fiveEvents = Some 5 \<and>
   project (fst (append_event 6 6 () fiveEvents)) = Some 6 \<and>
   projectAtIndex (fst (append_event 6 6 () fiveEvents)) 0 = projectAtIndex fiveEvents 2 \<and>
   projectAtIndex fiveEvents 2 = Some 3"
proof -
  have "reachable True False cappedStore" unfolding cappedStore_def by (rule reachable.r_new)
  then have r: "reachable True False fiveEvents" unfolding fiveEvents_def by (rule reachable_appendAll)
  have en: "truthy_b (enableCheckpoints (options fiveEvents))"
    by (simp add: fiveEvents_value truthy_b_def)
  have cap: "capReached (truncateFuture fiveEvents)"
    by (simp add: fiveEvents_value capReached_def truncateFuture_def)
  have cut: "cutover fiveEvents = 2"
    by (simp add: fiveEvents_value cutover_def capReached_def truncateFuture_def)
  have ok: "append_event 6 6 () fiveEvents =
      (fst (append_event 6 6 () fiveEvents), Inr \<lparr> ev_id = (6, 5), timestamp = 6, body = () \<rparr>)"
    by (simp add: fiveEvents_value countReducer_def eval_defs)
  have p5: "project fiveEvents = Some 5" and p2: "projectAtIndex fiveEvents 2 = Some 3"
    by (simp_all add: fiveEvents_value countReducer_def eval_defs)
  have ix: "index fiveEvents = 4" by (simp add: fiveEvents_value)
  have red: "reducer fiveEvents = countReducer" by (simp add: fiveEvents_value)
  have trs: "truncateFuture fiveEvents = fiveEvents"
    by (simp add: fiveEvents_value truncateFuture_def)
  note fact = eviction_keeps_state [of fiveEvents 6 6 "()" "fst (append_event 6 6 () fiveEvents)"
      "\<lparr> ev_id = (6, 5), timestamp = 6, body = () \<rparr>" True]
  have ev: "getEvents (fst (append_event 6 6 () fiveEvents)) =
      drop (nat (cutover fiveEvents)) (events (truncateFuture fiveEvents)) @ [\<lparr> ev_id = (6, 5), timestamp = 6, body = () \<rparr>]"
    and pr: "project (fst (append_event 6 6 () fiveEvents)) =
      Option.bind (project fiveEvents) (\<lambda>s. reducer fiveEvents s \<lparr> ev_id = (6, 5), timestamp = 6, body = () \<rparr>)"
    and pos: "\<forall>q. cutover fiveEvents \<le> q \<and> q \<le> index fiveEvents \<longrightarrow>
      projectAtIndex (fst (append_event 6 6 () fiveEvents)) (q - cutover fiveEvents) = projectAtIndex fiveEvents q"
    using fact r en ok by simp_all
  obtain seed where sd: "projectAtIndex (truncateFuture fiveEvents) (cutover fiveEvents) = Some seed"
    and cp: "map_get (checkpoints (fst (append_event 6 6 () fiveEvents))) 0 = Some seed"
    using fact cap en ok by auto
  have seed3: "seed = 3" using sd p2 by (simp add: trs cut)
  have "length (getEvents (fst (append_event 6 6 () fiveEvents))) = 4"
    unfolding ev cut trs by (simp add: fiveEvents_value)
  moreover have "project (fst (append_event 6 6 () fiveEvents)) = Some 6"
    unfolding pr p5 red by (simp add: countReducer_def)
  moreover have "projectAtIndex (fst (append_event 6 6 () fiveEvents)) 0 = projectAtIndex fiveEvents 2"
    using pos [rule_format, of 2] by (simp add: cut ix)
  moreover have "snd (append_event 6 6 () fiveEvents) = Inr \<lparr> ev_id = (6, 5), timestamp = 6, body = () \<rparr>"
    using arg_cong [OF ok, of snd] by simp
  moreover have "projectAtIndex (truncateFuture fiveEvents) 2 = Some 3" using p2 by (simp add: trs)
  ultimately show ?thesis using r en cap cut p5 p2 cp seed3 by simp
qed

theorem eviction_keeps_state_counterexample:
  "project fiveUncheckpointed = Some 5 \<and>
   snd (append_event 6 6 () fiveUncheckpointed) = Inr \<lparr> ev_id = (6, 5), timestamp = 6, body = () \<rparr> \<and>
   length (getEvents (fst (append_event 6 6 () fiveUncheckpointed))) = 4 \<and>
   project (fst (append_event 6 6 () fiveUncheckpointed)) = Some 4"
  by (simp add: fiveUncheckpointed_value getEvents_def countReducer_def eval_defs)

text \<open>
  C3 (amended). For every source store whose \<open>project()\<close> is the fold of the initial
  state over log positions \<open>0..index\<close>, taking \<open>snapshot()\<close> and then \<open>restore()\<close> of
  that snapshot into a fresh store with the same initial state and reducer (whatever its
  options) returns normally and yields a store whose \<open>project()\<close> equals the state
  captured in the snapshot and whose \<open>getEvents()\<close> equals the snapshotted events. The
  condition holds of every store reached without an append that found the maximum log
  length reached and without a \<open>restore\<close> of a snapshot whose index lies outside
  \<open>-1..events.length-1\<close>, of every store whose checkpoints at positions \<open>k \<ge> 0\<close> each
  hold the fold over log positions \<open>0..k\<close>, and of every store with checkpointing
  disabled. For every source store, after \<open>restore()\<close> of its snapshot \<open>getEvents()\<close>
  equals the snapshotted events, the cursor is the snapshot's index, and \<open>project()\<close>
  is the fold of the initial state over log positions \<open>0..index\<close> of the source.
\<close>

theorem snapshot_restore_roundtrip:
  assumes sn: "snapshot now src = Inr snap"
  shows "getEvents (fst (restore snap (new_EventStore (initialState src) (reducer src) opts))) = snap_events snap \<and>
         getIndex (fst (restore snap (new_EventStore (initialState src) (reducer src) opts))) = snap_index snap \<and>
         project (fst (restore snap (new_EventStore (initialState src) (reducer src) opts))) =
           fullFold src (index src) \<and>
         (project src = fullFold src (index src) \<longrightarrow>
            snd (restore snap (new_EventStore (initialState src) (reducer src) opts)) = Inr () \<and>
            project (fst (restore snap (new_EventStore (initialState src) (reducer src) opts))) =
              Some (snap_state snap)) \<and>
         (reachable False False src \<or> cachePure src \<or> \<not> truthy_b (enableCheckpoints (options src)) \<longrightarrow>
            project src = fullFold src (index src))"
proof -
  define fresh :: "('a, 'b, 'c) EventStore"
    where "fresh = new_EventStore (initialState src) (reducer src) opts"
  obtain s where ps: "project src = Some s"
    and snap: "snap = \<lparr> snap_events = events src, snap_index = index src, snap_state = s,
                         snap_timestamp = now, snap_metadata = Some (metadata src) \<rparr>"
    using sn by (auto simp: snapshot_def split: option.splits)
  have fr: "reducer fresh = reducer src \<and> initialState fresh = initialState src"
    by (simp add: fresh_def new_EventStore_def)
  have pr: "project (fst (restore snap fresh)) = fullFold src (index src)"
    using restore_project [of snap fresh] by (simp add: fr snap fullFold_def)
  have ok: "snd (restore snap fresh) = Inr () \<and> project (fst (restore snap fresh)) = Some (snap_state snap)"
    if eq: "project src = fullFold src (index src)"
  proof -
    have "fullFold src (index src) = Some s" using eq ps by simp
    then have "reduce (reducer fresh) (take (nat (snap_index snap + 1)) (snap_events snap)) (initialState fresh) \<noteq> None"
      by (simp add: fr snap fullFold_def)
    then have "snd (restore snap fresh) = Inr ()" by (rule restore_returns)
    then show ?thesis using pr eq ps by (simp add: snap)
  qed
  have pure: "project src = fullFold src (index src)"
    if "reachable False False src \<or> cachePure src \<or> \<not> truthy_b (enableCheckpoints (options src))"
  proof -
    have "cachePure src \<or> \<not> truthy_b (enableCheckpoints (options src))"
    proof (cases "reachable False False src")
      case True
      obtain pre where "consistent src pre" "\<not> False \<longrightarrow> pre = []"
        using reachable_inrange_consistent [OF True] by (elim exE conjE)
      then have "consistent src []" by simp
      then show ?thesis by (rule consistent_pure)
    next
      case False
      then show ?thesis using that by simp
    qed
    then show ?thesis using projectAtIndex_pure [of src "index src"] by (simp add: project_def)
  qed
  show ?thesis
    using pr ok pure restore_fields [of snap fresh]
    unfolding fresh_def by (simp add: getEvents_def getIndex_def)
qed

theorem snapshot_restore_counterexample:
  "reachable True False tenEvents \<and> snapshot 0 tenEvents = Inr tenSnapshot \<and> snap_state tenSnapshot = 10 \<and>
   snd (restore tenSnapshot cappedStore) = Inr () \<and>
   getEvents (fst (restore tenSnapshot cappedStore)) = snap_events tenSnapshot \<and>
   project (fst (restore tenSnapshot cappedStore)) = Some 4 \<and>
   reachable False True strayedStore \<and>
   snapshot 0 strayedStore = Inr \<lparr> snap_events = events strayedStore, snap_index = 4, snap_state = 5,
                                    snap_timestamp = 0, snap_metadata = Some Map.empty \<rparr> \<and>
   snd (restore \<lparr> snap_events = events strayedStore, snap_index = 4, snap_state = 5,
                  snap_timestamp = 0, snap_metadata = Some Map.empty \<rparr> intervalStore) = Inr () \<and>
   project (fst (restore \<lparr> snap_events = events strayedStore, snap_index = 4, snap_state = 5,
                  snap_timestamp = 0, snap_metadata = Some Map.empty \<rparr> intervalStore)) = Some 8"
proof -
  have "reachable True False cappedStore" unfolding cappedStore_def by (rule reachable.r_new)
  then have r: "reachable True False tenEvents" unfolding tenEvents_def by (rule reachable_appendAll)
  have s: "snapshot 0 tenEvents = Inr tenSnapshot"
    by (simp add: snapshot_def tenSnapshot_def tenEvents_value countReducer_def eval_defs)
  have rs: "restore tenSnapshot cappedStore =
      (cappedStore\<lparr> events := events tenEvents, index := 3, metadata := Map.empty,
                      checkpoints := [(- 1, 0)] \<rparr>, Inr ())"
    unfolding restore_def Let_def
    by (subst rebuildCheckpoints.simps) (simp add: tenSnapshot_def cappedStore_def eval_defs)
  have ten: "snap_state tenSnapshot = 10 \<and>
      getEvents (fst (restore tenSnapshot cappedStore)) = snap_events tenSnapshot \<and>
      project (fst (restore tenSnapshot cappedStore)) = Some 4"
    unfolding rs
    by (simp add: getEvents_def tenSnapshot_def tenEvents_value cappedStore_def countReducer_def eval_defs)
  have s2: "snapshot 0 strayedStore = Inr \<lparr> snap_events = events strayedStore, snap_index = 4, snap_state = 5,
                                    snap_timestamp = 0, snap_metadata = Some Map.empty \<rparr>"
    by (simp add: snapshot_def strayedStore_value addReducer_def eval_defs)
  have rs2: "restore \<lparr> snap_events = events strayedStore, snap_index = 4, snap_state = 5,
                  snap_timestamp = 0, snap_metadata = Some Map.empty \<rparr> intervalStore =
      (intervalStore\<lparr> events := events strayedStore, index := 4, metadata := Map.empty,
                        checkpoints := [(- 1, 0), (1, 8), (3, 8)] \<rparr>, Inr ())"
    by (simp add: restore_def rebuildCheckpoints.simps strayedStore_value intervalStore_def
          addReducer_def eval_defs)
  have str: "project (fst (restore \<lparr> snap_events = events strayedStore, snap_index = 4, snap_state = 5,
                  snap_timestamp = 0, snap_metadata = Some Map.empty \<rparr> intervalStore)) = Some 8"
    unfolding rs2 by (simp add: strayedStore_value intervalStore_def addReducer_def eval_defs)
  show ?thesis
    using r s ten s2 str strayedStore_reachable by (simp add: rs rs2)
qed

theorem snapshot_restore_roundtrip_witness:
  "reachable False False twoAdds \<and>
   snapshot 0 twoAdds = Inr \<lparr> snap_events = events twoAdds, snap_index = 1, snap_state = 8,
                               snap_timestamp = 0, snap_metadata = Some Map.empty \<rparr> \<and>
   project twoAdds = fullFold twoAdds (index twoAdds) \<and>
   snd (restore \<lparr> snap_events = events twoAdds, snap_index = 1, snap_state = 8,
                  snap_timestamp = 0, snap_metadata = Some Map.empty \<rparr> addStore) = Inr () \<and>
   project (fst (restore \<lparr> snap_events = events twoAdds, snap_index = 1, snap_state = 8,
                  snap_timestamp = 0, snap_metadata = Some Map.empty \<rparr> addStore)) = Some 8 \<and>
   getEvents (fst (restore \<lparr> snap_events = events twoAdds, snap_index = 1, snap_state = 8,
                  snap_timestamp = 0, snap_metadata = Some Map.empty \<rparr> addStore)) = events twoAdds"
proof -
  let ?snap = "\<lparr> snap_events = events twoAdds, snap_index = 1, snap_state = 8,
                 snap_timestamp = 0, snap_metadata = Some (Map.empty :: string \<rightharpoonup> unit) \<rparr>"
  have s: "snapshot 0 twoAdds = Inr ?snap"
    by (simp add: snapshot_def twoAdds_value addReducer_def eval_defs)
  have fresh: "new_EventStore (initialState twoAdds) (reducer twoAdds) defaultOptions = addStore"
    by (simp add: twoAdds_value addStore_def)
  note fact = snapshot_restore_roundtrip [OF s, of defaultOptions, unfolded fresh]
  have eq: "project twoAdds = fullFold twoAdds (index twoAdds)"
    using fact twoAdds_reachable by blast
  have imp: "project twoAdds = fullFold twoAdds (index twoAdds) \<longrightarrow>
      snd (restore ?snap addStore) = Inr () \<and> project (fst (restore ?snap addStore)) = Some 8"
    using fact by (elim conjE) simp
  have "snd (restore ?snap addStore) = Inr () \<and> project (fst (restore ?snap addStore)) = Some 8"
    using imp eq by (rule mp)
  moreover have "getEvents (fst (restore ?snap addStore)) = events twoAdds"
    using fact by simp
  ultimately show ?thesis using twoAdds_reachable s eq by simp
qed







text \<open>
  C6 (amended). When a store is constructed with checkpointing switched on in the options
  passed, a checkpoint at position \<open>-1\<close> holding the initial state is present after
  construction; for a store with checkpointing enabled it is present after \<open>clear\<close>,
  after \<open>restore\<close> and in the store that \<open>fork\<close> returns; and once present (with the
  cursor at \<open>-1\<close> or later) it is still present after \<open>undo\<close>, \<open>redo\<close>,
  \<open>navigate\<close>, \<open>navigateToTime\<close>, \<open>setMetadata\<close> and after every \<open>append\<close> that
  does not find the maximum log length reached. After a successful \<open>append\<close> that
  runs the eviction with checkpointing enabled, no checkpoint is left at position \<open>-1\<close>.
\<close>

theorem initial_checkpoint_kept:
  "(truthy_b (enableCheckpoints opts) \<longrightarrow>
      hasInitialCheckpoint (new_EventStore initial r opts :: ('p, 's, 'm) EventStore)) \<and>
   (truthy_b (enableCheckpoints (options st)) \<longrightarrow>
      hasInitialCheckpoint (clear st) \<and> hasInitialCheckpoint (fst (restore snap st)) \<and>
      (\<forall>forked. fork st = Inr forked \<longrightarrow> hasInitialCheckpoint (forked :: ('p, 's, 'm) EventStore))) \<and>
   (hasInitialCheckpoint st \<and> - 1 \<le> index st \<longrightarrow>
      hasInitialCheckpoint (fst (undo st)) \<and> hasInitialCheckpoint (fst (redo st)) \<and>
      hasInitialCheckpoint (fst (navigate i st)) \<and> hasInitialCheckpoint (fst (navigateToTime t st)) \<and>
      hasInitialCheckpoint (setMetadata key v st) \<and>
      (\<not> capReached (truncateFuture st) \<longrightarrow>
         hasInitialCheckpoint (fst (append_event nowId nowTs payload st)))) \<and>
   (capReached (truncateFuture st) \<and> truthy_b (enableCheckpoints (options st)) \<longrightarrow>
      (\<forall>st' ev. append_event nowId nowTs payload st = (st', Inr ev) \<longrightarrow>
         map_get (checkpoints st') (- 1) = None))"
proof -
  have evict: "map_get (checkpoints st') (- 1) = None"
    if cap: "capReached (truncateFuture st)" and en: "truthy_b (enableCheckpoints (options st))"
      and ok: "append_event nowId nowTs payload st = (st', Inr ev)" for st' ev
  proof -
    define st2 where "st2 = (truncateFuture st)\<lparr> idCounter := idCounter (truncateFuture st) + 1 \<rparr>"
    have cap2: "capReached st2" using cap by (simp add: st2_def capReached_idCounter)
    have en2: "truthy_b (enableCheckpoints (options st2))"
      using en by (simp add: st2_def truncateFuture_fields)
    obtain st3 r3 where em: "enforceMax st2 = (st3, r3)" by (cases "enforceMax st2")
    have r3: "r3 = Inr ()"
      using ok em unfolding append_event_def Let_def st2_def [symmetric]
      by (cases r3) (auto split: prod.splits sum.splits option.splits)
    have half: "length (events st2) div 2 < length (events st2)"
      using capReached_nonempty [OF cap2] by simp
    obtain cs where cps3: "checkpoints st3 = [(0, cs)]" and mid: "index st3 = int (length (events st3)) - 1"
      and len3: "0 < length (events st3)"
      using em r3 cap2 en2 half
      by (auto simp: enforceMax_def Let_def slice_from_ge split: option.splits)
    define st5 where "st5 = st3\<lparr> events := events st3 @ [newEvent nowId nowTs payload st], index := index st3 + 1 \<rparr>"
    have "st' = fst (append_event nowId nowTs payload st)" using ok by simp
    then have st': "st' = fst (checkpointIfDue st5)"
      unfolding append_event_store Let_def st2_def [symmetric] em r3 st5_def by simp
    have "index st5 \<noteq> - 1" using mid len3 by (simp add: st5_def)
    then show ?thesis
      unfolding st' using cps3
      by (simp add: checkpointIfDue_def map_get_map_set st5_def split: option.splits)
  qed
  show ?thesis
    using new_initial [of opts initial r] clear_initial [of st] restore_initial [of st snap]
      fork_initial [of st] cursor_moves_initial [of st] append_initial [of st nowId nowTs payload] evict
    by (intro conjI impI allI) simp_all
qed

theorem initial_checkpoint_counterexample:
  "truthy_b (enableCheckpoints (options threeEvents)) \<and> \<not> hasInitialCheckpoint threeEvents \<and>
   map_get (checkpoints threeEvents) (- 1) = None"
  by (simp add: threeEvents_value hasInitialCheckpoint_def truthy_b_def)

theorem initial_checkpoint_kept_witness:
  "truthy_b (enableCheckpoints \<lparr> maxEvents = Some 2, enableCheckpoints = Some True, checkpointInterval = None \<rparr>) \<and>
   hasInitialCheckpoint enabledStore \<and>
   truthy_b (enableCheckpoints (options twoEvents)) \<and> hasInitialCheckpoint twoEvents \<and>
   - 1 \<le> index twoEvents \<and> hasInitialCheckpoint (clear twoEvents) \<and>
   hasInitialCheckpoint (fst (restore tenSnapshot twoEvents)) \<and>
   (case fork twoEvents of Inl fault \<Rightarrow> False | Inr forked \<Rightarrow> hasInitialCheckpoint forked) \<and>
   hasInitialCheckpoint (fst (undo twoEvents)) \<and>
   \<not> capReached (truncateFuture enabledStore) \<and>
   hasInitialCheckpoint (fst (append_event 1 1 () enabledStore)) \<and>
   capReached (truncateFuture twoEvents) \<and>
   map_get (checkpoints (fst (append_event 3 3 () twoEvents))) (- 1) = None"
proof -
  let ?opts = "\<lparr> maxEvents = Some 2, enableCheckpoints = Some True, checkpointInterval = None \<rparr>"
  have en0: "truthy_b (enableCheckpoints ?opts)" by (simp add: truthy_b_def)
  have en: "truthy_b (enableCheckpoints (options twoEvents))"
    by (simp add: twoEvents_value truthy_b_def)
  have h: "hasInitialCheckpoint twoEvents" and lo: "- 1 \<le> index twoEvents"
    by (simp_all add: twoEvents_value hasInitialCheckpoint_def)
  have cap: "capReached (truncateFuture twoEvents)"
    by (simp add: twoEvents_value capReached_def truncateFuture_def)
  have ok: "append_event 3 3 () twoEvents =
      (fst (append_event 3 3 () twoEvents), Inr \<lparr> ev_id = (3, 2), timestamp = 3, body = () \<rparr>)"
    by (simp add: twoEvents_value countReducer_def eval_defs)
  have fk: "fork twoEvents = Inr (twoEvents\<lparr> checkpoints := [(- 1, 0)], idCounter := 0 \<rparr>)"
    unfolding fork_def Let_def
    by (subst rebuildCheckpoints.simps)
       (simp add: twoEvents_value getActiveEvents_def new_EventStore_def slice_def truthy_b_def)
  have lo0: "- 1 \<le> index enabledStore"
    by (simp add: enabledStore_def new_EventStore_def)
  have nocap: "\<not> capReached (truncateFuture enabledStore)"
    by (simp add: enabledStore_def eval_defs)
  note at_two = initial_checkpoint_kept [of ?opts 0 countReducer twoEvents tenSnapshot _ _ _ _ 3 3 "()"]
  have h0: "hasInitialCheckpoint enabledStore"
    using at_two en0 unfolding enabledStore_def by blast
  note at_new = initial_checkpoint_kept [of _ _ _ enabledStore _ _ _ _ _ 1 1 "()"]
  have "hasInitialCheckpoint (clear twoEvents)" using at_two en by blast
  moreover have "hasInitialCheckpoint (fst (restore tenSnapshot twoEvents))" using at_two en by blast
  moreover have "hasInitialCheckpoint (twoEvents\<lparr> checkpoints := [(- 1, 0)], idCounter := 0 \<rparr>)"
    using at_two en fk by blast
  moreover have "hasInitialCheckpoint (fst (undo twoEvents))" using at_two h lo by blast
  moreover have "map_get (checkpoints (fst (append_event 3 3 () twoEvents))) (- 1) = None"
    using at_two cap en ok by blast
  moreover have "hasInitialCheckpoint (fst (append_event 1 1 () enabledStore))"
    using at_new h0 lo0 nocap by blast
  ultimately show ?thesis using en0 h0 en h lo nocap cap by (simp add: fk)
qed

text \<open>
  C7 (amended). \<open>navigateToTime(t)\<close> moves the cursor to the last position of the longest
  initial run of the log whose event timestamps are all \<open>\<le> t\<close>, or to \<open>-1\<close> when
  the log is empty or its first event is later than \<open>t\<close>. When the timestamps are
  non-decreasing in log order, this is the greatest log position whose event timestamp is
  \<open>\<le> t\<close> (\<open>-1\<close> if there is none).
\<close>

theorem navigateToTime_prefix:
  "getIndex (fst (navigateToTime t st)) =
     int (length (takeWhile (\<lambda>e. timestamp e \<le> t) (events st))) - 1 \<and>
   (sorted (map timestamp (events st)) \<longrightarrow>
      (\<forall>i < length (events st).
         timestamp (events st ! i) \<le> t \<longleftrightarrow> int i \<le> getIndex (fst (navigateToTime t st))))"
proof -
  let ?k = "length (takeWhile (\<lambda>e. timestamp e \<le> t) (events st))"
  have scan: "timeScan t (events st) 0 (- 1) = int ?k - 1"
    by (simp add: timeScan_takeWhile)
  have "?k \<le> length (events st)" by (rule length_takeWhile_le)
  then have idx: "getIndex (fst (navigateToTime t st)) = int ?k - 1"
    unfolding getIndex_def navigateToTime_def scan by (intro navigate_in_range) simp_all
  have "timestamp (events st ! i) \<le> t \<longleftrightarrow> int i \<le> int ?k - 1"
    if "sorted (map timestamp (events st))" "i < length (events st)" for i
    using takeWhile_sorted_iff [OF that, of t] by auto
  then show ?thesis using idx by simp
qed

theorem navigateToTime_counterexample:
  "2 < length (events skewedStore) \<and> timestamp (events skewedStore ! 2) \<le> 4 \<and>
   getIndex (fst (navigateToTime 4 skewedStore)) = - 1"
  by (simp add: skewedStore_events getIndex_def navigateToTime_def navigate_def Let_def
        split: option.splits)

theorem navigateToTime_prefix_witness:
  "sorted (map timestamp (events twoAdds)) \<and> getIndex (fst (navigateToTime 1 twoAdds)) = 0 \<and>
   timestamp (events twoAdds ! 0) \<le> 1 \<and> \<not> timestamp (events twoAdds ! 1) \<le> 1"
proof -
  have s: "sorted (map timestamp (events twoAdds))" by (simp add: twoAdds_value)
  have l: "length (events twoAdds) = 2" by (simp add: twoAdds_value)
  have k: "int (length (takeWhile (\<lambda>e. timestamp e \<le> 1) (events twoAdds))) - 1 = 0"
    by (simp add: twoAdds_value)
  from navigateToTime_prefix [of 1 twoAdds]
  have idx: "getIndex (fst (navigateToTime 1 twoAdds)) = 0"
    and all: "\<forall>i < length (events twoAdds).
         timestamp (events twoAdds ! i) \<le> 1 \<longleftrightarrow> int i \<le> getIndex (fst (navigateToTime 1 twoAdds))"
    using s k by simp_all
  have "timestamp (events twoAdds ! 0) \<le> 1" using all l idx by simp
  moreover have "\<not> timestamp (events twoAdds ! 1) \<le> 1" using all l idx by simp
  ultimately show ?thesis using s idx by simp
qed

text \<open>
  C8 (amended). \<open>restore(snapshot)\<close> validates nothing. Of the missing fields only a
  missing \<open>events\<close> makes it fail fast: the call throws a \<open>TypeError\<close> at its first
  statement, before any assignment, and the store's events, index, metadata and
  checkpoints are unchanged. A snapshot whose events are present is taken whatever else
  is missing: the events and the index of the store are replaced by the snapshot's (a
  missing index leaves the cursor undefined, with no checkpoint rebuilt beyond position
  \<open>-1\<close>, and the call returns normally), the metadata by the snapshot's, or by empty
  metadata when that field is missing; the state and the timestamp of the snapshot are
  never read, so a snapshot lacking them is restored exactly as one holding them. On a
  snapshot with every field present this is \<open>restore\<close> on the declared type.
\<close>

theorem restore_malformed:
  "(raw_events snap = None \<longrightarrow> restoreRaw snap st = (fieldsOf st, Inl TypeError)) \<and>
   (raw_events snap = Some evs \<longrightarrow>
      f_events (fst (restoreRaw snap st)) = evs \<and>
      f_index (fst (restoreRaw snap st)) = raw_index snap \<and>
      f_metadata (fst (restoreRaw snap st)) =
        (case raw_metadata snap of None \<Rightarrow> Map.empty | Some m \<Rightarrow> m) \<and>
      (raw_index snap = None \<longrightarrow>
         restoreRaw snap st =
           (\<lparr> f_events = evs, f_index = None,
               f_metadata = (case raw_metadata snap of None \<Rightarrow> Map.empty | Some m \<Rightarrow> m),
               f_checkpoints = (if truthy_b (enableCheckpoints (options st))
                                then [(- 1, initialState st)] else []) \<rparr>, Inr ()))) \<and>
   restoreRaw (snap\<lparr> raw_state := otherState, raw_timestamp := otherTimestamp \<rparr>) st = restoreRaw snap st \<and>
   restoreRaw (rawOf typed) st =
     (fieldsOf (fst (restore typed st)),
      (case snd (restore typed st) of Inl e \<Rightarrow> Inl (Thrown e) | Inr u \<Rightarrow> Inr ()))"
proof -
  have a: "raw_events snap = None \<longrightarrow> restoreRaw snap st = (fieldsOf st, Inl TypeError)"
    by (simp add: restoreRaw_def)
  have b: "raw_events snap = Some evs \<longrightarrow>
      f_events (fst (restoreRaw snap st)) = evs \<and>
      f_index (fst (restoreRaw snap st)) = raw_index snap \<and>
      f_metadata (fst (restoreRaw snap st)) =
        (case raw_metadata snap of None \<Rightarrow> Map.empty | Some m \<Rightarrow> m)"
    using restoreRaw_present [of snap evs st] by simp
  have c: "raw_events snap = Some evs \<longrightarrow> raw_index snap = None \<longrightarrow>
         restoreRaw snap st =
           (\<lparr> f_events = evs, f_index = None,
               f_metadata = (case raw_metadata snap of None \<Rightarrow> Map.empty | Some m \<Rightarrow> m),
               f_checkpoints = (if truthy_b (enableCheckpoints (options st))
                                then [(- 1, initialState st)] else []) \<rparr>, Inr ())"
    by (simp add: restoreRaw_def Let_def)
  have d: "restoreRaw (snap\<lparr> raw_state := otherState, raw_timestamp := otherTimestamp \<rparr>) st = restoreRaw snap st"
    by (simp add: restoreRaw_def Let_def cong: option.case_cong)
  show ?thesis using a b c d restoreRaw_typed [of typed st] by simp
qed

theorem restore_malformed_counterexample:
  "raw_state statelessSnapshot = None \<and> raw_timestamp statelessSnapshot = None \<and>
   snd (restoreRaw statelessSnapshot twoAdds) = Inr () \<and>
   length (events twoAdds) = 2 \<and> index twoAdds = 1 \<and>
   length (f_events (fst (restoreRaw statelessSnapshot twoAdds))) = 1 \<and>
   f_index (fst (restoreRaw statelessSnapshot twoAdds)) = Some 0 \<and>
   fst (restoreRaw statelessSnapshot twoAdds) \<noteq> fieldsOf twoAdds \<and>
   raw_index indexlessSnapshot = None \<and>
   snd (restoreRaw indexlessSnapshot twoAdds) = Inr () \<and>
   length (f_events (fst (restoreRaw indexlessSnapshot twoAdds))) = 1 \<and>
   f_index (fst (restoreRaw indexlessSnapshot twoAdds)) = None \<and>
   fst (restoreRaw indexlessSnapshot twoAdds) \<noteq> fieldsOf twoAdds"
proof -
  have r1: "restoreRaw statelessSnapshot twoAdds =
      (\<lparr> f_events = [\<lparr> ev_id = (9, 0), timestamp = 9, body = 7 \<rparr>], f_index = Some 0,
          f_metadata = Map.empty, f_checkpoints = [(- 1, 0)] \<rparr>, Inr ())"
    by (simp add: restoreRaw_def statelessSnapshot_def twoAdds_value rebuildCheckpoints.simps
          fieldsOf_def eval_defs)
  have r2: "restoreRaw indexlessSnapshot twoAdds =
      (\<lparr> f_events = [\<lparr> ev_id = (9, 0), timestamp = 9, body = 7 \<rparr>], f_index = None,
          f_metadata = Map.empty, f_checkpoints = [(- 1, 0)] \<rparr>, Inr ())"
    by (simp add: restoreRaw_def indexlessSnapshot_def twoAdds_value eval_defs)
  show ?thesis
    unfolding r1 r2
    by (simp add: statelessSnapshot_def indexlessSnapshot_def twoAdds_value fieldsOf_def)
qed

theorem restore_malformed_witness:
  "raw_events eventlessSnapshot = None \<and>
   restoreRaw eventlessSnapshot twoAdds = (fieldsOf twoAdds, Inl TypeError) \<and>
   raw_events statelessSnapshot = Some [\<lparr> ev_id = (9, 0), timestamp = 9, body = 7 \<rparr>] \<and>
   f_events (fst (restoreRaw statelessSnapshot twoAdds)) = [\<lparr> ev_id = (9, 0), timestamp = 9, body = 7 \<rparr>] \<and>
   f_index (fst (restoreRaw statelessSnapshot twoAdds)) = Some 0 \<and>
   f_metadata (fst (restoreRaw statelessSnapshot twoAdds)) = Map.empty \<and>
   raw_index indexlessSnapshot = None \<and>
   restoreRaw indexlessSnapshot twoAdds =
     (\<lparr> f_events = [\<lparr> ev_id = (9, 0), timestamp = 9, body = 7 \<rparr>], f_index = None,
         f_metadata = Map.empty, f_checkpoints = [(- 1, 0)] \<rparr>, Inr ())"
proof -
  have e: "raw_events eventlessSnapshot = None" by (simp add: eventlessSnapshot_def)
  have s: "raw_events statelessSnapshot = Some [\<lparr> ev_id = (9, 0), timestamp = 9, body = 7 \<rparr>]"
    by (simp add: statelessSnapshot_def)
  have i: "raw_events indexlessSnapshot = Some [\<lparr> ev_id = (9, 0), timestamp = 9, body = 7 \<rparr>]"
    "raw_index indexlessSnapshot = None"
    by (simp_all add: indexlessSnapshot_def)
  have o: "truthy_b (enableCheckpoints (options twoAdds))" "initialState twoAdds = 0"
    by (simp_all add: twoAdds_value truthy_b_def)
  have 1: "restoreRaw eventlessSnapshot twoAdds = (fieldsOf twoAdds, Inl TypeError)"
    using restore_malformed [of eventlessSnapshot twoAdds] e by simp
  have 2: "f_events (fst (restoreRaw statelessSnapshot twoAdds)) = [\<lparr> ev_id = (9, 0), timestamp = 9, body = 7 \<rparr>] \<and>
   f_index (fst (restoreRaw statelessSnapshot twoAdds)) = Some 0 \<and>
   f_metadata (fst (restoreRaw statelessSnapshot twoAdds)) = Map.empty"
    using restore_malformed [of statelessSnapshot twoAdds "[\<lparr> ev_id = (9, 0), timestamp = 9, body = 7 \<rparr>]"] s
    by (simp add: statelessSnapshot_def)
  have 3: "restoreRaw indexlessSnapshot twoAdds =
     (\<lparr> f_events = [\<lparr> ev_id = (9, 0), timestamp = 9, body = 7 \<rparr>], f_index = None,
         f_metadata = Map.empty, f_checkpoints = [(- 1, 0)] \<rparr>, Inr ())"
    using restore_malformed [of indexlessSnapshot twoAdds "[\<lparr> ev_id = (9, 0), timestamp = 9, body = 7 \<rparr>]"] i o
    by (simp add: indexlessSnapshot_def)
  show ?thesis using e s i 1 2 3 by simp
qed







end
